theory Spec2Isabelle
  imports Main
begin

section \<open>Python strings and numbers used by the program\<close>

text \<open>
  A Python \<open>str\<close> is modelled as a \<open>string\<close>, and a \<open>char\<close> is read as the code point of
  the same number: the model covers text with code points up to \<open>U+00FF\<close>. The library
  functions the program calls (\<open>str.upper\<close>, \<open>str.strip\<close>, \<open>str.isdigit\<close>, the regular
  expression classes \<open>\d\<close> and \<open>[A-Z0-9]\<close>) are modelled on these code points; text with
  higher code points is outside the model.
\<close>

definition NL :: char where
  "NL = CHR 0x0A"

definition ord :: "char \<Rightarrow> int" where
  "ord c = of_char c"

definition is_digit :: "char \<Rightarrow> bool" where
  "is_digit c = (48 \<le> ord c \<and> ord c \<le> 57)"

definition is_upper :: "char \<Rightarrow> bool" where
  "is_upper c = (65 \<le> ord c \<and> ord c \<le> 90)"

definition is_lower :: "char \<Rightarrow> bool" where
  "is_lower c = (97 \<le> ord c \<and> ord c \<le> 122)"

definition is_upper_alnum :: "char \<Rightarrow> bool" where
  \<comment> \<open>the character class \<open>[A-Z0-9]\<close>\<close>
  "is_upper_alnum c = (is_upper c \<or> is_digit c)"

definition isdigit :: "char \<Rightarrow> bool" where
  \<comment> \<open>\<open>c.isdigit()\<close>: the decimal digits and the superscripts \<open>U+00B2\<close>, \<open>U+00B3\<close>, \<open>U+00B9\<close>\<close>
  "isdigit c = (is_digit c \<or> ord c = 178 \<or> ord c = 179 \<or> ord c = 185)"

definition is_space :: "char \<Rightarrow> bool" where
  \<comment> \<open>the characters \<open>str.strip()\<close> removes: TAB, LF, VT, FF, CR, FS, GS, RS, US, SPACE,
      NEL (\<open>U+0085\<close>) and NO-BREAK SPACE (\<open>U+00A0\<close>)\<close>
  "is_space c = ((9 \<le> ord c \<and> ord c \<le> 13) \<or> (28 \<le> ord c \<and> ord c \<le> 32)
                 \<or> ord c = 133 \<or> ord c = 160)"

definition upper_char :: "char \<Rightarrow> string" where
  \<comment> \<open>\<open>c.upper()\<close>: \<open>a\<close>..\<open>z\<close> and the accented lower-case letters move down by 32, and
      \<open>U+00DF\<close> becomes \<open>SS\<close>. The upper-case forms of \<open>U+00B5\<close> and \<open>U+00FF\<close> are \<open>U+039C\<close>
      and \<open>U+0178\<close>, which a \<open>char\<close> cannot hold: the two are left in place, and neither
      they nor their upper-case forms are in \<open>[A-Z0-9]\<close>\<close>
  "upper_char c =
     (if is_lower c then [char_of (ord c - 32)]
      else if ord c = 223 then ''SS''
      else if 224 \<le> ord c \<and> ord c \<le> 254 \<and> ord c \<noteq> 247 then [char_of (ord c - 32)]
      else [c])"

definition upper :: "string \<Rightarrow> string" where
  "upper s = concat (map upper_char s)"

definition strip :: "string \<Rightarrow> string" where
  "strip s = rev (dropWhile is_space (rev (dropWhile is_space s)))"

definition startswith :: "string \<Rightarrow> string \<Rightarrow> bool" where
  \<comment> \<open>\<open>startswith s p\<close> is \<open>s.startswith(p)\<close>\<close>
  "startswith s p = (take (length p) s = p)"

definition endswith :: "string \<Rightarrow> string \<Rightarrow> bool" where
  "endswith s p = (length p \<le> length s \<and> drop (length s - length p) s = p)"

definition digit_char :: "int \<Rightarrow> char" where
  "digit_char d = char_of (48 + d)"

definition digit_val :: "char \<Rightarrow> int" where
  "digit_val c = ord c - 48"

function str_nat :: "int \<Rightarrow> string" where
  \<comment> \<open>the decimal digits of an integer that is not negative\<close>
  "str_nat n = (if n < 10 then [digit_char n] else str_nat (n div 10) @ [digit_char (n mod 10)])"
  by pat_completeness auto
termination
  by (relation "measure nat") auto

declare str_nat.simps [simp del]

definition str_int :: "int \<Rightarrow> string" where
  \<comment> \<open>\<open>str(i)\<close> of a Python int\<close>
  "str_int i = (if i < 0 then CHR ''-'' # str_nat (- i) else str_nat i)"

definition zfill :: "nat \<Rightarrow> string \<Rightarrow> string" where
  \<comment> \<open>\<open>s.zfill(n)\<close>: zeros on the left, after a leading sign\<close>
  "zfill n s =
     (case s of
        [] \<Rightarrow> replicate n (CHR ''0'')
      | c # cs \<Rightarrow>
          if c = CHR ''+'' \<or> c = CHR ''-''
          then c # replicate (n - length s) (CHR ''0'') @ cs
          else replicate (n - length s) (CHR ''0'') @ s)"

fun digits_value :: "int \<Rightarrow> string \<Rightarrow> int" where
  "digits_value acc [] = acc"
| "digits_value acc (c # cs) = digits_value (acc * 10 + digit_val c) cs"

datatype error = ValueError string

definition py_int :: "string \<Rightarrow> error + int" where
  \<comment> \<open>\<open>int(s)\<close> on a string without whitespace or underscores: an optional sign and
      at least one digit; anything else raises \<open>ValueError\<close>\<close>
  "py_int s =
     (let body = (case s of [] \<Rightarrow> [] | c # cs \<Rightarrow> if c = CHR ''+'' \<or> c = CHR ''-'' then cs else s);
          neg = (case s of [] \<Rightarrow> False | c # cs \<Rightarrow> c = CHR ''-'')
      in if body \<noteq> [] \<and> list_all is_digit body
         then Inr (if neg then - digits_value 0 body else digits_value 0 body)
         else Inl (ValueError ''invalid literal for int() with base 10''))"

fun split_nl :: "string \<Rightarrow> string list" where
  \<comment> \<open>\<open>s.split("\n")\<close>: empty pieces are kept, the result is never empty\<close>
  "split_nl [] = [[]]"
| "split_nl (c # cs) =
     (if c = NL then [] # split_nl cs
      else (case split_nl cs of [] \<Rightarrow> [[c]] | l # ls \<Rightarrow> (c # l) # ls))"

fun join_nl :: "string list \<Rightarrow> string" where
  \<comment> \<open>\<open>"\n".join(xs)\<close>\<close>
  "join_nl [] = []"
| "join_nl [x] = x"
| "join_nl (x # y # ys) = x @ NL # join_nl (y # ys)"

subsection \<open>\<open>decimal.Decimal\<close>\<close>

text \<open>
  A finite \<open>Decimal\<close> is a signed coefficient and an exponent; its value is
  \<open>coefficient * 10 ^ exponent\<close>. \<open>Decimal("0.00")\<close> is \<open>Decimal 0 (-2)\<close>.
  NaN and the infinities are outside the model.
\<close>

datatype decimal = Decimal (coefficient: int) (exponent: int)

definition decimal_pos :: "decimal \<Rightarrow> bool" where
  \<comment> \<open>\<open>d > 0\<close>\<close>
  "decimal_pos d = (0 < coefficient d)"

definition round_half_even :: "int \<Rightarrow> int \<Rightarrow> int" where
  \<comment> \<open>\<open>n / d\<close> rounded to the nearest integer, ties to even (the default context's rounding)\<close>
  "round_half_even n d =
     (let q = n div d; r = n mod d
      in if d < 2 * r \<or> (2 * r = d \<and> odd q) then q + 1 else q)"

definition quantize_cents :: "decimal \<Rightarrow> int" where
  \<comment> \<open>the absolute value rescaled to exponent \<open>-2\<close>, in hundredths\<close>
  "quantize_cents d =
     (let c = \<bar>coefficient d\<bar>; e = exponent d
      in if - 2 \<le> e then c * 10 ^ nat (e + 2)
         else round_half_even c (10 ^ nat (- e - 2)))"

definition format_2f :: "decimal \<Rightarrow> string" where
  \<comment> \<open>\<open>f"{d:.2f}"\<close>\<close>
  "format_2f d =
     (let cents = quantize_cents d
      in (if coefficient d < 0 then ''-'' else [])
         @ str_nat (cents div 100) @ ''.'' @ zfill 2 (str_nat (cents mod 100)))"

section \<open>The payment payload (\<open>EuQrPayment\<close>)\<close>

record EuQrPayment =
  iban :: string
  bic :: string
  beneficiary_name :: string
  amount :: decimal
  currency :: string
  purpose :: string
  remittance_text :: string
  creditor_reference :: string
  information :: string
  version :: string
  char_set :: string

definition sanitize_alphanum :: "string \<Rightarrow> string" where
  \<comment> \<open>\<open>_sanitize_alphanum\<close>: \<open>re.sub(r'[^A-Z0-9]', '', text.upper())\<close>; the empty text gives the
      empty text on either path\<close>
  "sanitize_alphanum text = (if text = [] then [] else filter is_upper_alnum (upper text))"

definition sanitize_text :: "string \<Rightarrow> nat \<Rightarrow> string" where
  \<comment> \<open>\<open>_sanitize_text\<close>: \<open>text.strip()[:max_len]\<close>\<close>
  "sanitize_text text max_len = (if text = [] then [] else take max_len (strip text))"

definition EuQrPayment_init :: "string \<Rightarrow> EuQrPayment" where
  \<comment> \<open>\<open>EuQrPayment.__init__\<close>\<close>
  "EuQrPayment_init iban_raw =
     \<lparr> iban = sanitize_alphanum iban_raw, bic = [], beneficiary_name = [],
       amount = Decimal 0 (- 2), currency = ''EUR'', purpose = [], remittance_text = [],
       creditor_reference = [], information = [], version = ''002'', char_set = ''1'' \<rparr>"

definition set_bic :: "string \<Rightarrow> EuQrPayment \<Rightarrow> EuQrPayment" where
  "set_bic b self = self\<lparr>bic := sanitize_alphanum b\<rparr>"

definition amount_str :: "EuQrPayment \<Rightarrow> string" where
  \<comment> \<open>line 108: \<open>f"{self.currency}{self.amount:.2f}" if self.amount > 0 else ""\<close>\<close>
  "amount_str self =
     (if decimal_pos (amount self) then currency self @ format_2f (amount self) else [])"

definition get_qr_string :: "EuQrPayment \<Rightarrow> (error + string) \<times> EuQrPayment" where
  \<comment> \<open>the method's result (\<open>Inl\<close>: the exception raised) and the object after the call\<close>
  "get_qr_string self =
     (let final_iban = sanitize_alphanum (iban self);
          final_bic = sanitize_alphanum (bic self);
          final_name = sanitize_text (beneficiary_name self) 70;
          final_creditor_ref = sanitize_alphanum (creditor_reference self);
          final_remittance = sanitize_text (remittance_text self) 140;
          final_info = sanitize_text (information self) 70
      in if final_name = []
         then (Inl (ValueError ''Beneficiary Name is required.''), self)
         else if final_remittance \<noteq> [] \<and> final_creditor_ref \<noteq> []
         then (Inl (ValueError ''Cannot set both Remittance Text and Creditor Reference.''), self)
         else if final_creditor_ref \<noteq> [] \<and> \<not> startswith final_creditor_ref ''RF''
         then (Inl (ValueError ''Structured Reference (AT-44) must be an ISO 11649 Reference starting with 'RF'. Use Remittance Text for other formats.''), self)
         else (Inr (join_nl
                 [''BCD'', version self, char_set self, ''SCT'', final_bic, final_name, final_iban,
                  amount_str self, purpose self, final_creditor_ref, final_remittance,
                  final_info]), self))"


definition re_match_iban :: "string \<Rightarrow> bool" where
  \<comment> \<open>\<open>re.match(r'^[A-Z]{2}\d{2}[A-Z0-9]{1,30}$', s)\<close>; \<open>$\<close> also matches just before a
      newline that ends the string\<close>
  "re_match_iban s =
     (case s of
        c1 # c2 # d1 # d2 # rest \<Rightarrow>
          is_upper c1 \<and> is_upper c2 \<and> is_digit d1 \<and> is_digit d2 \<and>
          (let body = (if rest \<noteq> [] \<and> last rest = NL then butlast rest else rest)
           in 1 \<le> length body \<and> length body \<le> 30 \<and> list_all is_upper_alnum body)
      | _ \<Rightarrow> False)"

definition iban_char_digits :: "char \<Rightarrow> string" where
  \<comment> \<open>the loop body of \<open>validate_iban\<close>: a digit is kept, any other character \<open>c\<close> becomes
      \<open>str(ord(c) - 55)\<close>\<close>
  "iban_char_digits c = (if isdigit c then [c] else str_int (ord c - 55))"

definition validate_iban :: "EuQrPayment \<Rightarrow> error + bool" where
  "validate_iban self =
     (if iban self = [] then Inr False
      else if \<not> re_match_iban (iban self) then Inr False
      else
        let rearranged = drop 4 (iban self) @ take 4 (iban self);
            numeric_iban = concat (map iban_char_digits rearranged)
        in (case py_int numeric_iban of
              Inl e \<Rightarrow> Inl e
            | Inr n \<Rightarrow> Inr (n mod 97 = 1)))"

section \<open>The Belgian OGM generator\<close>

definition randint :: "int \<Rightarrow> int \<Rightarrow> int \<Rightarrow> int" where
  \<comment> \<open>\<open>random.randint(a, b)\<close>: an integer between \<open>a\<close> and \<open>b\<close>, both included, chosen by the
      ambient generator; the generator's draw is the explicit argument \<open>rng\<close>, and every
      value of the range is met by equally many draws below each multiple of its size\<close>
  "randint a b rng = a + rng mod (b - a + 1)"

definition format_02d :: "int \<Rightarrow> string" where
  \<comment> \<open>\<open>f"{i:02d}"\<close>\<close>
  "format_02d i = zfill 2 (str_int i)"

definition generate_belgian_ogm :: "string option \<Rightarrow> int \<Rightarrow> error + string" where
  \<comment> \<open>\<open>base_num\<close> is \<open>None\<close> when the caller passes nothing; \<open>rng\<close> is the draw of the ambient
      random generator, read only when no base is supplied\<close>
  "generate_belgian_ogm base_num rng =
     (let base_num1 =
            (case base_num of
               None \<Rightarrow> str_int (randint 1000000000 9999999999 rng)
             | Some b \<Rightarrow> if b = [] then str_int (randint 1000000000 9999999999 rng) else b);
          digits0 = filter is_digit base_num1;
          digits = (if 10 < length digits0 then take 10 digits0 else zfill 10 digits0)
      in (case py_int digits of
            Inl e \<Rightarrow> Inl e
          | Inr base_int \<Rightarrow>
              let mod0 = base_int mod 97;
                  mod1 = (if mod0 = 0 then 97 else mod0);
                  check_digits = format_02d mod1;
                  full_digits = digits @ check_digits;
                  part1 = take 3 full_digits;
                  part2 = take 4 (drop 3 full_digits);
                  part3 = take 5 (drop 7 full_digits)
              in Inr (''+++'' @ part1 @ ''/'' @ part2 @ ''/'' @ part3 @ ''+++'')))"

section \<open>The payload validator (\<open>validate_qr_string\<close>)\<close>

text \<open>
  Every \<open>print\<close> of the validator is one diagnostic, with the values it interpolates:
  the line number, the field's name and the text shown.
\<close>

datatype diag =
    Start_Validation
  | Warning_11_Lines
  | Warning_11_Lines_Hint
  | Critical_Fail nat
  | Lines_Found "string list"
  | Line_Count_Ok
  | Expected_Got nat string string string
  | Mandatory_Empty nat string
  | Logic_Fail_Both
  | Ogm_Detected nat string
  | Must_Start_RF nat string string
  | Field_Trace nat string string
  | Validation_Complete
  | Result_Passed
  | Result_Failed

function drop_trailing :: "string list \<Rightarrow> string list" where
  \<comment> \<open>\<open>while len(lines) > 12 and lines[-1] == "": lines.pop()\<close>\<close>
  "drop_trailing ls = (if 12 < length ls \<and> last ls = [] then drop_trailing (butlast ls) else ls)"
  by pat_completeness auto
termination
  by (relation "measure length") auto

declare drop_trailing.simps [simp del]

definition schema :: "(string \<times> string option) list" where
  "schema =
     [(''Service Tag'', Some ''BCD''),
      (''Version'', Some ''002''),
      (''Character Set'', Some ''1''),
      (''Identification'', Some ''SCT''),
      (''BIC'', None),
      (''Beneficiary Name'', None),
      (''IBAN'', None),
      (''Amount'', None),
      (''Purpose'', None),
      (''Creditor Reference'', None),
      (''Remittance Text'', None),
      (''Beneficiary Info'', None)]"

definition shown :: "string \<Rightarrow> string" where
  \<comment> \<open>\<open>value if value else '[Empty]'\<close>\<close>
  "shown v = (if v \<noteq> [] then v else ''[Empty]'')"

fun check_field :: "string list \<Rightarrow> nat \<times> string \<times> string option \<Rightarrow> bool \<times> diag list \<Rightarrow> bool \<times> diag list" where
  \<comment> \<open>one turn of the loop over \<open>enumerate(schema)\<close>, on \<open>is_valid\<close> and the lines printed so far\<close>
  "check_field lines (i, name, expected) (is_valid, out) =
     (let v = strip (lines ! i)
      in if (case expected of None \<Rightarrow> False | Some e \<Rightarrow> e \<noteq> [] \<and> v \<noteq> e)
         then (False, out @ [Expected_Got (i + 1) name (the expected) v])
         else if (name = ''Beneficiary Name'' \<or> name = ''IBAN'') \<and> v = []
         then (False, out @ [Mandatory_Empty (i + 1) name])
         else
           let (is_valid1, out1) =
                 (if i = 9 \<and> v \<noteq> [] \<and> strip (lines ! 10) \<noteq> []
                  then (False, out @ [Logic_Fail_Both]) else (is_valid, out));
               out2 =
                 (if i = 10 \<and> startswith v ''+++'' \<and> endswith v ''+++''
                  then out1 @ [Ogm_Detected (i + 1) name] else out1);
               (is_valid3, out3) =
                 (if i = 9 \<and> v \<noteq> [] \<and> \<not> startswith v ''RF''
                  then (False, out2 @ [Must_Start_RF (i + 1) name v]) else (is_valid1, out2))
           in (is_valid3, out3 @ [Field_Trace (i + 1) name (shown v)]))"

fun check_fields :: "string list \<Rightarrow> (nat \<times> string \<times> string option) list \<Rightarrow> bool \<times> diag list \<Rightarrow> bool \<times> diag list" where
  "check_fields lines [] st = st"
| "check_fields lines (e # es) st = check_fields lines es (check_field lines e st)"

definition field_phase :: "string list \<Rightarrow> diag list \<Rightarrow> bool \<times> diag list" where
  \<comment> \<open>lines 57 to 97: the loop over the schema and the verdict, on exactly 12 lines\<close>
  "field_phase lines out =
     (let (is_valid, out1) = check_fields lines (enumerate 0 schema) (True, out);
          out2 = out1 @ [Validation_Complete];
          out3 = out2 @ [if is_valid then Result_Passed else Result_Failed]
      in (is_valid, out3))"

definition validate_qr_string :: "string \<Rightarrow> bool \<times> diag list" where
  \<comment> \<open>the value returned and the lines printed, in order\<close>
  "validate_qr_string qr_string =
     (let out0 = [Start_Validation];
          lines0 = split_nl qr_string;
          (lines1, out1) =
            (if length lines0 = 11
             then (lines0 @ [[]], out0 @ [Warning_11_Lines, Warning_11_Lines_Hint])
             else (lines0, out0));
          lines2 = drop_trailing lines1
      in if length lines2 \<noteq> 12
         then (False, out1 @ [Critical_Fail (length lines2), Lines_Found lines2])
         else field_phase lines2 (out1 @ [Line_Count_Ok]))"

section \<open>Example payloads\<close>

definition refund_payment :: EuQrPayment where
  \<comment> \<open>the payload of \<open>test_payload_structure\<close> with the amount \<open>Decimal("-12.50")\<close>\<close>
  "refund_payment = (EuQrPayment_init ''BE44001981860045'')
     \<lparr>beneficiary_name := ''Test Company'', amount := Decimal (- 1250) (- 2),
      remittance_text := ''Test Payment''\<rparr>"

definition test_payment :: EuQrPayment where
  \<comment> \<open>the payload of \<open>test_payload_structure\<close>\<close>
  "test_payment = (EuQrPayment_init ''BE44001981860045'')
     \<lparr>beneficiary_name := ''Test Company'', amount := Decimal 10000 (- 2),
      remittance_text := ''Test Payment''\<rparr>"

definition multiline_payment :: EuQrPayment where
  \<comment> \<open>the same payload with a remittance text of two lines, as the form's text area gives\<close>
  "multiline_payment = (EuQrPayment_init ''BE44001981860045'')
     \<lparr>beneficiary_name := ''Test Company'', amount := Decimal 10000 (- 2),
      remittance_text := ''Invoice 12'' @ [NL] @ ''Jan 2024''\<rparr>"

definition known_payment :: EuQrPayment where
  \<comment> \<open>the payload of \<open>test_iban_sanitization\<close>\<close>
  "known_payment = EuQrPayment_init ''BE44 0019 8186 0045''"

definition known_numeric_iban :: string where
  \<comment> \<open>\<open>BE44001981860045\<close> rearranged to \<open>001981860045BE44\<close>, with \<open>B\<close> = 11 and \<open>E\<close> = 14\<close>
  "known_numeric_iban = ''001981860045111444''"

definition blank_name_payment :: EuQrPayment where
  \<comment> \<open>a name of spaces only, with remittance text and creditor reference both set\<close>
  "blank_name_payment = (EuQrPayment_init ''BE44001981860045'')
     \<lparr>beneficiary_name := ''   '', remittance_text := ''Some text'', creditor_reference := ''RF18''\<rparr>"

definition untidy_conflict_payment :: EuQrPayment where
  \<comment> \<open>the payload of \<open>test_mutual_exclusivity\<close> typed with spaces around and in lower case\<close>
  "untidy_conflict_payment = (EuQrPayment_init ''BE44001981860045'')
     \<lparr>beneficiary_name := '' Test '', remittance_text := '' Some text '',
      creditor_reference := ''rf 18''\<rparr>"

definition bad_reference_payment :: EuQrPayment where
  \<comment> \<open>a blank remittance text and a creditor reference that does not start with \<open>RF\<close>\<close>
  "bad_reference_payment = (EuQrPayment_init ''BE44001981860045'')
     \<lparr>beneficiary_name := '' Test '', remittance_text := ''   '', creditor_reference := ''xf-18''\<rparr>"

definition lowercase_reference_payment :: EuQrPayment where
  \<comment> \<open>a blank remittance text and the creditor reference \<open>RF18\<close> typed as \<open>rf 18\<close>\<close>
  "lowercase_reference_payment = (EuQrPayment_init ''BE44001981860045'')
     \<lparr>beneficiary_name := '' Test '', remittance_text := ''   '', creditor_reference := ''rf 18''\<rparr>"

section \<open>Notions used to state the properties\<close>

definition has_alnum :: "char \<Rightarrow> bool" where
  \<comment> \<open>a letter \<open>A\<close>..\<open>Z\<close> or \<open>a\<close>..\<open>z\<close>, a digit, or \<open>U+00DF\<close> (whose upper-case form is \<open>SS\<close>)\<close>
  "has_alnum c = (is_upper c \<or> is_lower c \<or> is_digit c \<or> ord c = 223)"

definition iban_structure :: "string \<Rightarrow> bool" where
  \<comment> \<open>two uppercase letters, two digits, then 1 to 30 uppercase letters or digits\<close>
  "iban_structure s =
     (5 \<le> length s \<and> length s \<le> 34 \<and> list_all is_upper (take 2 s)
      \<and> list_all is_digit (take 2 (drop 2 s)) \<and> list_all is_upper_alnum (drop 4 s))"

definition letter_number :: "char \<Rightarrow> int" where
  \<comment> \<open>the position of a letter in the alphabet plus 9: \<open>A\<close> is 10, \<open>Z\<close> is 35\<close>
  "letter_number c = ord c - ord (CHR ''A'') + 1 + 9"

definition iban_digit_string :: "string \<Rightarrow> string" where
  \<comment> \<open>the first four characters moved to the end, then every letter replaced by its number\<close>
  "iban_digit_string s =
     concat (map (\<lambda>c. if is_upper c then str_int (letter_number c) else [c])
               (drop 4 s @ take 4 s))"

fun mod97_acc :: "int \<Rightarrow> string \<Rightarrow> int" where
  "mod97_acc acc [] = acc"
| "mod97_acc acc (c # cs) = mod97_acc ((acc * 10 + digit_val c) mod 97) cs"

definition mod97Check :: "string \<Rightarrow> int" where
  \<comment> \<open>the specification's \<open>mod97Check\<close>: digit by digit, \<open>acc = (acc*10 + digit) % 97\<close>,
      from \<open>acc = 0\<close>\<close>
  "mod97Check s = mod97_acc 0 s"

definition ogm_format :: "string \<Rightarrow> bool" where
  \<comment> \<open>the pattern \<open>^\+\+\+\d{3}/\d{4}/\d{5}\+\+\+$\<close> on a string without line separator\<close>
  "ogm_format s =
     (length s = 20 \<and> take 3 s = ''+++'' \<and> list_all is_digit (take 3 (drop 3 s))
      \<and> take 1 (drop 6 s) = ''/'' \<and> list_all is_digit (take 4 (drop 7 s))
      \<and> take 1 (drop 11 s) = ''/'' \<and> list_all is_digit (take 5 (drop 12 s))
      \<and> drop 17 s = ''+++'')"

definition ogm_digits :: "string \<Rightarrow> string" where
  \<comment> \<open>the digits of a generated reference, in order\<close>
  "ogm_digits s = filter is_digit s"

definition ogm_base :: "string \<Rightarrow> string" where
  \<comment> \<open>the digit characters of the input, cut to the first 10 or padded on the left with zeros\<close>
  "ogm_base b =
     (let d = filter is_digit b
      in if 10 < length d then take 10 d else replicate (10 - length d) (CHR ''0'') @ d)"

definition ogm_check :: "int \<Rightarrow> int" where
  \<comment> \<open>\<open>base % 97\<close>, with 0 replaced by 97\<close>
  "ogm_check n = (if n mod 97 = 0 then 97 else n mod 97)"

definition prepass_lines :: "string \<Rightarrow> string list" where
  \<comment> \<open>the lines the validator holds when it counts them\<close>
  "prepass_lines q =
     drop_trailing (if length (split_nl q) = 11 then split_nl q @ [[]] else split_nl q)"




definition sample_payload :: string where
  \<comment> \<open>the sample of \<open>validation.py\<close>: 11 lines, the last one an OGM\<close>
  "sample_payload =
     join_nl [''BCD'', ''002'', ''1'', ''SCT'', ''GEBABEBB'', ''Breutech Solutions'',
              ''BE44001981860045'', ''EUR1.00'', ''IVPT'', [], ''+++776/1504/73874+++'']"


definition padded_payload :: string where
  \<comment> \<open>the sample followed by two more line separators: 13 lines, then 12 after the loop\<close>
  "padded_payload = sample_payload @ [NL, NL]"

definition short_payload :: string where
  \<comment> \<open>a single line\<close>
  "short_payload = ''abc''"

section \<open>Facts about strings and numbers\<close>

lemma ord_NL: "ord NL = 10"
  by (simp add: ord_def NL_def)

lemma ord_char_of: "0 \<le> k \<Longrightarrow> k < 256 \<Longrightarrow> ord (char_of k) = k"
  by (simp add: ord_def)

lemma char_of_ord: "char_of (ord c) = c"
  by (simp add: ord_def)

lemma ord_digit_char: "0 \<le> d \<Longrightarrow> d < 10 \<Longrightarrow> ord (digit_char d) = 48 + d"
  by (simp add: digit_char_def ord_char_of)

lemma is_digit_digit_char: "0 \<le> d \<Longrightarrow> d < 10 \<Longrightarrow> is_digit (digit_char d)"
  by (simp add: is_digit_def ord_digit_char)

lemma digit_val_digit_char: "0 \<le> d \<Longrightarrow> d < 10 \<Longrightarrow> digit_val (digit_char d) = d"
  by (simp add: digit_val_def ord_digit_char)

lemma digit_char_digit_val: "is_digit c \<Longrightarrow> digit_char (digit_val c) = c"
  by (simp add: digit_char_def digit_val_def char_of_ord)

lemma digit_val_range: "is_digit c \<Longrightarrow> 0 \<le> digit_val c \<and> digit_val c < 10"
  by (simp add: is_digit_def digit_val_def)

lemma is_digit_not_NL: "is_digit c \<Longrightarrow> c \<noteq> NL"
  by (auto simp: is_digit_def ord_NL)

lemma is_digit_not_sign: "is_digit c \<Longrightarrow> c \<noteq> CHR ''+'' \<and> c \<noteq> CHR ''-'' \<and> c \<noteq> CHR ''/''"
  by (auto simp: is_digit_def ord_def)

lemma is_upper_alnum_not_NL: "is_upper_alnum c \<Longrightarrow> c \<noteq> NL"
  by (auto simp: is_upper_alnum_def is_upper_def is_digit_def ord_NL)

lemma str_nat_digits: "0 \<le> n \<Longrightarrow> str_nat n \<noteq> [] \<and> list_all is_digit (str_nat n)"
proof (induction n rule: str_nat.induct)
  case (1 n)
  show ?case
  proof (cases "n < 10")
    case True
    with "1.prems" show ?thesis
      by (simp add: str_nat.simps [of n] is_digit_digit_char)
  next
    case False
    then have "0 \<le> n div 10" by simp
    with False "1.IH" have "list_all is_digit (str_nat (n div 10))" by simp
    moreover have "is_digit (digit_char (n mod 10))"
      by (simp add: is_digit_digit_char)
    ultimately show ?thesis
      using False by (simp add: str_nat.simps [of n])
  qed
qed

lemma str_nat_small: "0 \<le> n \<Longrightarrow> n < 10 \<Longrightarrow> str_nat n = [digit_char n]"
  by (simp add: str_nat.simps [of n])

lemma str_nat_two: "10 \<le> n \<Longrightarrow> n < 100 \<Longrightarrow> str_nat n = [digit_char (n div 10), digit_char (n mod 10)]"
proof -
  assume a: "10 \<le> n" "n < 100"
  then have "str_nat (n div 10) = [digit_char (n div 10)]"
    by (intro str_nat_small) simp_all
  with a show ?thesis
    by (simp add: str_nat.simps [of n])
qed

lemma zfill2_below_100:
  assumes "0 \<le> n" "n < 100"
  shows "zfill 2 (str_nat n) = [digit_char (n div 10), digit_char (n mod 10)]"
proof (cases "n < 10")
  case True
  have "digit_char n \<noteq> CHR ''+'' \<and> digit_char n \<noteq> CHR ''-''"
    using is_digit_not_sign [OF is_digit_digit_char [of n]] assms True by simp
  moreover have "digit_char 0 = CHR ''0''" by code_simp
  ultimately show ?thesis
    using True assms by (simp add: str_nat_small zfill_def)
next
  case False
  have "digit_char (n div 10) \<noteq> CHR ''+'' \<and> digit_char (n div 10) \<noteq> CHR ''-''"
    using is_digit_not_sign [OF is_digit_digit_char [of "n div 10"]] assms False by simp
  then show ?thesis
    using False assms by (simp add: str_nat_two zfill_def)
qed

lemma round_half_even_nonneg: "0 \<le> n \<Longrightarrow> 0 < d \<Longrightarrow> 0 \<le> round_half_even n d"
  by (simp add: round_half_even_def Let_def pos_imp_zdiv_nonneg_iff)

lemma quantize_cents_nonneg: "0 \<le> quantize_cents d"
  by (simp add: quantize_cents_def Let_def round_half_even_nonneg)

lemma format_2f_shape:
  assumes "0 \<le> coefficient d"
  shows "\<exists>ip fp. format_2f d = ip @ ''.'' @ fp \<and> ip \<noteq> [] \<and> list_all is_digit ip
                  \<and> length fp = 2 \<and> list_all is_digit fp"
proof -
  let ?c = "quantize_cents d"
  have c: "0 \<le> ?c" by (rule quantize_cents_nonneg)
  then have ip: "str_nat (?c div 100) \<noteq> [] \<and> list_all is_digit (str_nat (?c div 100))"
    by (intro str_nat_digits) simp
  have fp: "zfill 2 (str_nat (?c mod 100))
              = [digit_char (?c mod 100 div 10), digit_char (?c mod 100 mod 10)]"
    by (rule zfill2_below_100) simp_all
  have "list_all is_digit (zfill 2 (str_nat (?c mod 100)))"
    unfolding fp by (simp add: is_digit_digit_char)
  with ip fp assms have
    "format_2f d = str_nat (?c div 100) @ ''.'' @ zfill 2 (str_nat (?c mod 100))
     \<and> str_nat (?c div 100) \<noteq> [] \<and> list_all is_digit (str_nat (?c div 100))
     \<and> length (zfill 2 (str_nat (?c mod 100))) = 2
     \<and> list_all is_digit (zfill 2 (str_nat (?c mod 100)))"
    by (simp add: format_2f_def Let_def)
  then show ?thesis by blast
qed

lemma format_2f_no_NL:
  assumes "0 \<le> coefficient d"
  shows "NL \<notin> set (format_2f d)"
proof -
  obtain ip fp where "format_2f d = ip @ ''.'' @ fp" "list_all is_digit ip" "list_all is_digit fp"
    using format_2f_shape [OF assms] by blast
  moreover have "CHR ''.'' \<noteq> NL" by (simp add: NL_def)
  ultimately show ?thesis
    by (auto simp: list_all_iff dest: is_digit_not_NL)
qed

lemma sanitize_alphanum_chars: "list_all is_upper_alnum (sanitize_alphanum t)"
  by (simp add: sanitize_alphanum_def list_all_iff)

lemma sanitize_alphanum_no_NL: "NL \<notin> set (sanitize_alphanum t)"
  using sanitize_alphanum_chars [of t] by (auto simp: list_all_iff dest: is_upper_alnum_not_NL)

lemma split_nl_line: "NL \<notin> set a \<Longrightarrow> split_nl a = [a]"
  by (induction a) auto

lemma split_nl_append: "NL \<notin> set a \<Longrightarrow> split_nl (a @ NL # r) = a # split_nl r"
  by (induction a) auto

lemma split_nl_join_nl:
  "xs \<noteq> [] \<Longrightarrow> \<forall>x\<in>set xs. NL \<notin> set x \<Longrightarrow> split_nl (join_nl xs) = xs"
  by (induction xs rule: join_nl.induct) (simp_all add: split_nl_line split_nl_append)

lemma digits_value_shift: "digits_value a s = a * 10 ^ length s + digits_value 0 s"
proof (induction s arbitrary: a)
  case Nil
  show ?case by simp
next
  case (Cons c cs)
  have "digits_value a (c # cs) = digits_value (a * 10 + digit_val c) cs" by simp
  also have "\<dots> = (a * 10 + digit_val c) * 10 ^ length cs + digits_value 0 cs"
    by (rule Cons.IH)
  also have "\<dots> = a * 10 ^ length (c # cs) + (digit_val c * 10 ^ length cs + digits_value 0 cs)"
    by (simp add: algebra_simps)
  also have "digit_val c * 10 ^ length cs + digits_value 0 cs = digits_value (digit_val c) cs"
    by (rule Cons.IH [symmetric])
  finally show ?case by simp
qed

lemma digits_value_mod: "digits_value (a mod 97) s mod 97 = digits_value a s mod 97"
proof -
  have "digits_value (a mod 97) s mod 97 = (a mod 97 * 10 ^ length s + digits_value 0 s) mod 97"
    by (subst digits_value_shift) simp
  also have "\<dots> = (a * 10 ^ length s + digits_value 0 s) mod 97"
    by (metis mod_add_left_eq mod_mult_left_eq)
  also have "\<dots> = digits_value a s mod 97"
    by (subst (2) digits_value_shift) simp
  finally show ?thesis .
qed

lemma mod97_acc_digits_value:
  "0 \<le> a \<Longrightarrow> a < 97 \<Longrightarrow> mod97_acc a s = digits_value a s mod 97"
proof (induction s arbitrary: a)
  case Nil
  then show ?case by simp
next
  case (Cons c cs)
  have "mod97_acc a (c # cs) = mod97_acc ((a * 10 + digit_val c) mod 97) cs" by simp
  also have "\<dots> = digits_value ((a * 10 + digit_val c) mod 97) cs mod 97"
    by (rule Cons.IH) simp_all
  also have "\<dots> = digits_value (a * 10 + digit_val c) cs mod 97"
    by (rule digits_value_mod)
  finally show ?case by simp
qed

lemma mod97Check_digits_value: "mod97Check s = digits_value 0 s mod 97"
  by (simp add: mod97Check_def mod97_acc_digits_value)

lemma py_int_digits:
  assumes "s \<noteq> []" "list_all is_digit s"
  shows "py_int s = Inr (digits_value 0 s)"
proof -
  obtain c cs where s: "s = c # cs" using assms(1) by (cases s) auto
  with assms(2) have "is_digit c" by simp
  then have "c \<noteq> CHR ''+'' \<and> c \<noteq> CHR ''-''" using is_digit_not_sign by blast
  with s assms(2) show ?thesis by (simp add: py_int_def)
qed

lemma is_upper_not_digit: "is_upper c \<Longrightarrow> \<not> isdigit c"
  by (simp add: is_upper_def is_digit_def isdigit_def)

lemma is_digit_isdigit: "is_digit c \<Longrightarrow> isdigit c"
  by (simp add: isdigit_def)

lemma letter_number_range: "is_upper c \<Longrightarrow> 10 \<le> letter_number c \<and> letter_number c \<le> 35"
  by (simp add: is_upper_def letter_number_def ord_def)

lemma letter_number_ord: "letter_number c = ord c - 55"
  by (simp add: letter_number_def ord_def)

lemma iban_char_digits_alnum:
  "is_upper_alnum c \<Longrightarrow>
     iban_char_digits c = (if is_upper c then str_int (letter_number c) else [c])"
  by (auto simp: iban_char_digits_def is_upper_alnum_def letter_number_ord is_upper_not_digit
        is_digit_isdigit)

lemma iban_char_digits_digits:
  assumes "is_upper_alnum c"
  shows "iban_char_digits c \<noteq> [] \<and> list_all is_digit (iban_char_digits c)"
proof (cases "is_upper c")
  case True
  then have "0 \<le> letter_number c" using letter_number_range [of c] by simp
  then show ?thesis
    using True str_nat_digits [of "letter_number c"]
    by (simp add: iban_char_digits_alnum [OF assms] str_int_def)
next
  case False
  with assms show ?thesis
    by (simp add: iban_char_digits_alnum is_upper_alnum_def)
qed

lemma numeric_iban_digits:
  assumes "list_all is_upper_alnum r" "r \<noteq> []"
  shows "concat (map iban_char_digits r) \<noteq> [] \<and> list_all is_digit (concat (map iban_char_digits r))"
proof -
  have "list_all is_upper_alnum xs \<Longrightarrow> list_all is_digit (concat (map iban_char_digits xs))" for xs
    by (induction xs) (simp_all add: iban_char_digits_digits)
  moreover have "concat (map iban_char_digits r) \<noteq> []"
    using assms by (cases r) (simp_all add: iban_char_digits_digits)
  ultimately show ?thesis using assms by simp
qed

lemma numeric_iban_eq:
  assumes "list_all is_upper_alnum s"
  shows "concat (map iban_char_digits (drop 4 s @ take 4 s)) = iban_digit_string s"
proof -
  have "\<forall>c\<in>set (drop 4 s @ take 4 s). is_upper_alnum c"
    using assms by (auto simp: list_all_iff dest: in_set_dropD in_set_takeD)
  then show ?thesis
    by (simp add: iban_digit_string_def iban_char_digits_alnum cong: map_cong)
qed

lemma re_match_iban_structure:
  assumes "list_all is_upper_alnum s"
  shows "re_match_iban s \<longleftrightarrow> iban_structure s"
proof (cases "length s < 4")
  case True
  then have "\<not> re_match_iban s"
    by (auto simp: re_match_iban_def split: list.splits)
  with True show ?thesis by (simp add: iban_structure_def)
next
  case False
  then obtain c1 t1 where t1: "s = c1 # t1" "3 \<le> length t1" by (cases s) auto
  then obtain c2 t2 where t2: "t1 = c2 # t2" "2 \<le> length t2" by (cases t1) auto
  then obtain d1 t3 where t3: "t2 = d1 # t3" "1 \<le> length t3" by (cases t2) auto
  then obtain d2 rest where t4: "t3 = d2 # rest" by (cases t3) auto
  have s: "s = c1 # c2 # d1 # d2 # rest" by (simp add: t1 t2 t3 t4)
  have "rest \<noteq> [] \<Longrightarrow> last rest \<noteq> NL"
    using assms s is_upper_alnum_not_NL [of "last rest"]
    by (auto simp: list_all_iff)
  then show ?thesis
    using assms by (auto simp: s re_match_iban_def iban_structure_def Let_def)
qed

section \<open>What sanitizing does\<close>

lemma strip_Nil_iff: "strip s = [] \<longleftrightarrow> list_all is_space s"
proof -
  have "strip s = [] \<longleftrightarrow> (\<forall>x\<in>set (dropWhile is_space s). is_space x)"
    by (simp add: strip_def dropWhile_eq_Nil_conv)
  also have "\<dots> \<longleftrightarrow> dropWhile is_space s = []"
  proof
    assume a: "\<forall>x\<in>set (dropWhile is_space s). is_space x"
    show "dropWhile is_space s = []"
    proof (rule ccontr)
      assume ne: "dropWhile is_space s \<noteq> []"
      then have "\<not> is_space (hd (dropWhile is_space s))" by (rule hd_dropWhile)
      moreover have "hd (dropWhile is_space s) \<in> set (dropWhile is_space s)"
        using ne by simp
      ultimately show False using a by blast
    qed
  next
    assume "dropWhile is_space s = []"
    then show "\<forall>x\<in>set (dropWhile is_space s). is_space x"
      by (auto simp: dropWhile_eq_Nil_conv dest: set_dropWhileD)
  qed
  also have "\<dots> \<longleftrightarrow> list_all is_space s"
    by (simp add: dropWhile_eq_Nil_conv list_all_iff)
  finally show ?thesis .
qed

lemma strip_decomp:
  "\<exists>a b. s = a @ strip s @ b \<and> list_all is_space a \<and> list_all is_space b"
proof -
  let ?d = "dropWhile is_space s"
  let ?a = "takeWhile is_space s"
  let ?b = "rev (takeWhile is_space (rev ?d))"
  have "rev (takeWhile is_space (rev ?d) @ dropWhile is_space (rev ?d)) = rev (rev ?d)"
    by (simp only: takeWhile_dropWhile_id)
  then have "rev (dropWhile is_space (rev ?d)) @ rev (takeWhile is_space (rev ?d)) = ?d"
    by (simp only: rev_append rev_rev_ident)
  then have d: "?d = strip s @ ?b"
    by (simp add: strip_def)
  have "s = ?a @ ?d" by simp
  with d have "s = ?a @ strip s @ ?b" by simp
  moreover have "list_all is_space ?a"
    by (auto simp: list_all_iff dest: set_takeWhileD)
  moreover have "list_all is_space ?b"
    by (auto simp: list_all_iff dest: set_takeWhileD)
  ultimately show ?thesis by blast
qed

lemma strip_ends:
  assumes "strip s \<noteq> []"
  shows "\<not> is_space (hd (strip s)) \<and> \<not> is_space (last (strip s))"
proof -
  let ?d = "dropWhile is_space s"
  let ?e = "dropWhile is_space (rev ?d)"
  have e: "?e \<noteq> []" using assms by (simp add: strip_def)
  then have "\<not> is_space (hd ?e)" by (rule hd_dropWhile)
  moreover have "last (strip s) = hd ?e"
    using e by (simp add: strip_def last_rev)
  ultimately have l: "\<not> is_space (last (strip s))" by simp
  have "rev (takeWhile is_space (rev ?d) @ ?e) = rev (rev ?d)"
    by (simp only: takeWhile_dropWhile_id)
  then have "rev ?e @ rev (takeWhile is_space (rev ?d)) = ?d"
    by (simp only: rev_append rev_rev_ident)
  then have d: "?d = strip s @ rev (takeWhile is_space (rev ?d))"
    by (simp add: strip_def)
  then have ne: "?d \<noteq> []" using assms by (metis append_is_Nil_conv)
  then have "\<not> is_space (hd ?d)" by (rule hd_dropWhile)
  moreover have "hd ?d = hd (strip s)"
    using assms by (subst d) simp
  ultimately show ?thesis using l by simp
qed

lemma sanitize_text_eq: "sanitize_text t n = take n (strip t)"
  by (simp add: sanitize_text_def strip_def)

lemma sanitize_text_Nil_iff: "0 < n \<Longrightarrow> sanitize_text t n = [] \<longleftrightarrow> list_all is_space t"
  by (simp add: sanitize_text_eq strip_Nil_iff)

lemma sanitize_alphanum_eq: "sanitize_alphanum t = filter is_upper_alnum (upper t)"
  by (simp add: sanitize_alphanum_def upper_def)

lemma sanitize_alphanum_append:
  "sanitize_alphanum (t @ u) = sanitize_alphanum t @ sanitize_alphanum u"
  by (simp add: sanitize_alphanum_eq upper_def)

lemma sanitize_alphanum_char:
  "is_upper_alnum c \<Longrightarrow> sanitize_alphanum [c] = [c]"
  "is_lower c \<Longrightarrow> sanitize_alphanum [c] = [char_of (ord c - 32)]"
  "is_lower c \<Longrightarrow> is_upper (char_of (ord c - 32))"
  "ord c = 223 \<Longrightarrow> sanitize_alphanum [c] = ''SS''"
  "\<not> has_alnum c \<Longrightarrow> sanitize_alphanum [c] = []"
proof -
  have "ord c = ord c mod 256"
    by (simp add: ord_def)
  moreover have "0 \<le> ord c mod 256" "ord c mod 256 < 256"
    by simp_all
  ultimately have range: "0 \<le> ord c" "ord c < 256"
    by simp_all
  show "sanitize_alphanum [c] = [c]" if "is_upper_alnum c"
  proof -
    from that have "ord c \<le> 90" "\<not> is_lower c"
      by (auto simp: is_upper_alnum_def is_upper_def is_digit_def is_lower_def)
    then have "upper_char c = [c]" by (simp add: upper_char_def)
    with that show ?thesis by (simp add: sanitize_alphanum_eq upper_def)
  qed
  show low: "is_lower c \<Longrightarrow> is_upper (char_of (ord c - 32))"
    by (simp add: is_lower_def is_upper_def ord_char_of)
  show "is_lower c \<Longrightarrow> sanitize_alphanum [c] = [char_of (ord c - 32)]"
    using low by (simp add: sanitize_alphanum_eq upper_def upper_char_def is_upper_alnum_def)
  show "ord c = 223 \<Longrightarrow> sanitize_alphanum [c] = ''SS''"
    by (simp add: sanitize_alphanum_eq upper_def upper_char_def is_upper_alnum_def is_upper_def
          is_lower_def ord_def)
  show "sanitize_alphanum [c] = []" if no: "\<not> has_alnum c"
  proof -
    from no have c: "\<not> is_lower c" "ord c \<noteq> 223" "\<not> is_upper_alnum c"
      by (simp_all add: has_alnum_def is_upper_alnum_def)
    show ?thesis
    proof (cases "224 \<le> ord c \<and> ord c \<le> 254 \<and> ord c \<noteq> 247")
      case True
      then have "ord (char_of (ord c - 32)) = ord c - 32"
        by (intro ord_char_of) simp_all
      with True have "\<not> is_upper_alnum (char_of (ord c - 32))"
        by (simp add: is_upper_alnum_def is_upper_def is_digit_def)
      with True c show ?thesis
        by (simp add: sanitize_alphanum_eq upper_def upper_char_def)
    next
      case False
      with c show ?thesis
        by (simp add: sanitize_alphanum_eq upper_def upper_char_def)
    qed
  qed
qed

lemma sanitize_alphanum_fixed: "list_all is_upper_alnum t \<Longrightarrow> sanitize_alphanum t = t"
proof (induction t)
  case Nil
  show ?case by (simp add: sanitize_alphanum_def)
next
  case (Cons c cs)
  have "sanitize_alphanum (c # cs) = sanitize_alphanum [c] @ sanitize_alphanum cs"
    using sanitize_alphanum_append [of "[c]" cs] by simp
  with Cons show ?case by (simp add: sanitize_alphanum_char(1))
qed

lemma sanitize_alphanum_Nil_iff: "sanitize_alphanum t = [] \<longleftrightarrow> \<not> list_ex has_alnum t"
proof (induction t)
  case Nil
  show ?case by (simp add: sanitize_alphanum_def)
next
  case (Cons c cs)
  have eq: "sanitize_alphanum (c # cs) = sanitize_alphanum [c] @ sanitize_alphanum cs"
    using sanitize_alphanum_append [of "[c]" cs] by simp
  have "sanitize_alphanum [c] = [] \<longleftrightarrow> \<not> has_alnum c"
  proof (cases "has_alnum c")
    case False
    then show ?thesis by (simp add: sanitize_alphanum_char(5))
  next
    case True
    then consider "is_upper_alnum c" | "is_lower c" | "ord c = 223"
      by (auto simp: has_alnum_def is_upper_alnum_def)
    then have "sanitize_alphanum [c] \<noteq> []"
      by cases (simp_all add: sanitize_alphanum_char)
    with True show ?thesis by simp
  qed
  with Cons eq show ?case by simp
qed

section \<open>Properties of the serializer\<close>

lemma refund_payment_fields:
  "sanitize_text (beneficiary_name refund_payment) 70 = ''Test Company''"
  "sanitize_text (remittance_text refund_payment) 140 = ''Test Payment''"
  "sanitize_alphanum (creditor_reference refund_payment) = []"
  "sanitize_alphanum (iban refund_payment) = ''BE44001981860045''"
  "sanitize_alphanum (bic refund_payment) = []"
  "sanitize_text (information refund_payment) 70 = []"
  "coefficient (amount refund_payment) = - 1250"
  "version refund_payment = ''002''" "char_set refund_payment = ''1''" "purpose refund_payment = []"
  by code_simp+

text \<open>
  Claim C9. \<open>get_qr_string\<close> leaves the payload as it found it, whether it returns the
  string or raises: the object after the call is the object before the call, so each of
  \<open>iban\<close>, \<open>bic\<close>, \<open>beneficiary_name\<close>, \<open>amount\<close>, \<open>currency\<close>, \<open>purpose\<close>,
  \<open>remittance_text\<close>, \<open>creditor_reference\<close>, \<open>information\<close>, \<open>version\<close> and \<open>char_set\<close>
  is unchanged. The sanitized values are local to the call.
\<close>

theorem get_qr_string_frame: "snd (get_qr_string self) = self"
  by (simp add: get_qr_string_def Let_def)

lemma raise_example_facts:
  "list_all is_space (beneficiary_name blank_name_payment)"
  "\<not> list_all is_space (beneficiary_name untidy_conflict_payment)"
  "\<not> list_all is_space (remittance_text untidy_conflict_payment)"
  "list_ex has_alnum (creditor_reference untidy_conflict_payment)"
  "\<not> list_all is_space (beneficiary_name bad_reference_payment)"
  "list_all is_space (remittance_text bad_reference_payment)"
  "list_ex has_alnum (creditor_reference bad_reference_payment)"
  "sanitize_alphanum (creditor_reference bad_reference_payment) = ''XF18''"
  "\<not> startswith (sanitize_alphanum (creditor_reference bad_reference_payment)) ''RF''"
  "\<not> list_all is_space (beneficiary_name lowercase_reference_payment)"
  "list_all is_space (remittance_text lowercase_reference_payment)"
  "sanitize_alphanum (creditor_reference lowercase_reference_payment) = ''RF18''"
  "startswith (sanitize_alphanum (creditor_reference lowercase_reference_payment)) ''RF''"
  "sanitize_text (beneficiary_name lowercase_reference_payment) 70 = ''Test''"
  by code_simp+

text \<open>
  Claim C2. \<open>get_qr_string\<close> sanitizes first and checks afterwards. Sanitizing to
  alphanumeric keeps, in order, the letters in upper case and the digits and nothing
  else; trimming removes the whitespace at both ends, and truncating keeps the first 70 or
  140 characters. The name is then empty exactly when the stored name is blank, the
  remittance text when the stored text is blank, the creditor reference when the stored
  reference has no letter or digit. The call raises exactly when the name is empty, or
  remittance text and creditor reference are both set, or the creditor reference is set and
  does not start with \<open>RF\<close>; the checks are made in this order, the error raised being the
  one of the first check that fails. In every other case a string is returned.
\<close>

theorem get_qr_string_raises_iff:
  fixes self :: EuQrPayment
  defines "final_name \<equiv> sanitize_text (beneficiary_name self) 70"
    and "final_ref \<equiv> sanitize_alphanum (creditor_reference self)"
    and "final_rem \<equiv> sanitize_text (remittance_text self) 140"
  shows "(final_name = [] \<longrightarrow>
            fst (get_qr_string self) = Inl (ValueError ''Beneficiary Name is required.''))
       \<and> (final_name \<noteq> [] \<and> final_rem \<noteq> [] \<and> final_ref \<noteq> [] \<longrightarrow>
            fst (get_qr_string self)
              = Inl (ValueError ''Cannot set both Remittance Text and Creditor Reference.''))
       \<and> (final_name \<noteq> [] \<and> final_rem = [] \<and> final_ref \<noteq> [] \<and> \<not> startswith final_ref ''RF'' \<longrightarrow>
            fst (get_qr_string self)
              = Inl (ValueError ''Structured Reference (AT-44) must be an ISO 11649 Reference starting with 'RF'. Use Remittance Text for other formats.''))
       \<and> ((\<exists>e. fst (get_qr_string self) = Inl e) \<longleftrightarrow>
            (final_name = [] \<or> (final_rem \<noteq> [] \<and> final_ref \<noteq> [])
             \<or> (final_ref \<noteq> [] \<and> \<not> startswith final_ref ''RF'')))
       \<and> ((\<exists>s. fst (get_qr_string self) = Inr s) \<longleftrightarrow>
            \<not> (final_name = [] \<or> (final_rem \<noteq> [] \<and> final_ref \<noteq> [])
             \<or> (final_ref \<noteq> [] \<and> \<not> startswith final_ref ''RF'')))
       \<and> (final_name = [] \<longleftrightarrow> list_all is_space (beneficiary_name self))
       \<and> (final_rem = [] \<longleftrightarrow> list_all is_space (remittance_text self))
       \<and> (final_ref = [] \<longleftrightarrow> \<not> list_ex has_alnum (creditor_reference self))
       \<and> list_all is_upper_alnum (sanitize_alphanum t)
       \<and> (list_all is_upper_alnum t \<longrightarrow> sanitize_alphanum t = t)
       \<and> sanitize_alphanum (t @ u) = sanitize_alphanum t @ sanitize_alphanum u
       \<and> (is_lower c \<longrightarrow> sanitize_alphanum [c] = [char_of (ord c - 32)]
                          \<and> is_upper (char_of (ord c - 32)))
       \<and> (ord c = 223 \<longrightarrow> sanitize_alphanum [c] = ''SS'')
       \<and> (\<not> has_alnum c \<longrightarrow> sanitize_alphanum [c] = [])
       \<and> sanitize_text t n = take n (strip t)
       \<and> (\<exists>a b. t = a @ strip t @ b \<and> list_all is_space a \<and> list_all is_space b)
       \<and> (strip t \<noteq> [] \<longrightarrow> \<not> is_space (hd (strip t)) \<and> \<not> is_space (last (strip t)))"
proof -
  have checks: "(final_name = [] \<longrightarrow>
            fst (get_qr_string self) = Inl (ValueError ''Beneficiary Name is required.''))
       \<and> (final_name \<noteq> [] \<and> final_rem \<noteq> [] \<and> final_ref \<noteq> [] \<longrightarrow>
            fst (get_qr_string self)
              = Inl (ValueError ''Cannot set both Remittance Text and Creditor Reference.''))
       \<and> (final_name \<noteq> [] \<and> final_rem = [] \<and> final_ref \<noteq> [] \<and> \<not> startswith final_ref ''RF'' \<longrightarrow>
            fst (get_qr_string self)
              = Inl (ValueError ''Structured Reference (AT-44) must be an ISO 11649 Reference starting with 'RF'. Use Remittance Text for other formats.''))
       \<and> ((\<exists>e. fst (get_qr_string self) = Inl e) \<longleftrightarrow>
            (final_name = [] \<or> (final_rem \<noteq> [] \<and> final_ref \<noteq> [])
             \<or> (final_ref \<noteq> [] \<and> \<not> startswith final_ref ''RF'')))
       \<and> ((\<exists>s. fst (get_qr_string self) = Inr s) \<longleftrightarrow>
            \<not> (final_name = [] \<or> (final_rem \<noteq> [] \<and> final_ref \<noteq> [])
             \<or> (final_ref \<noteq> [] \<and> \<not> startswith final_ref ''RF'')))"
    unfolding final_name_def final_ref_def final_rem_def
    by (simp add: get_qr_string_def Let_def)
  have raw: "(final_name = [] \<longleftrightarrow> list_all is_space (beneficiary_name self))
       \<and> (final_rem = [] \<longleftrightarrow> list_all is_space (remittance_text self))
       \<and> (final_ref = [] \<longleftrightarrow> \<not> list_ex has_alnum (creditor_reference self))"
    unfolding final_name_def final_ref_def final_rem_def
    by (simp add: sanitize_text_Nil_iff sanitize_alphanum_Nil_iff)
  have alnum: "list_all is_upper_alnum (sanitize_alphanum t)
       \<and> (list_all is_upper_alnum t \<longrightarrow> sanitize_alphanum t = t)
       \<and> sanitize_alphanum (t @ u) = sanitize_alphanum t @ sanitize_alphanum u
       \<and> (is_lower c \<longrightarrow> sanitize_alphanum [c] = [char_of (ord c - 32)]
                          \<and> is_upper (char_of (ord c - 32)))
       \<and> (ord c = 223 \<longrightarrow> sanitize_alphanum [c] = ''SS'')
       \<and> (\<not> has_alnum c \<longrightarrow> sanitize_alphanum [c] = [])"
    using sanitize_alphanum_chars [of t] sanitize_alphanum_fixed [of t]
      sanitize_alphanum_append [of t u] sanitize_alphanum_char(2-5) [of c]
    by blast
  have trim: "sanitize_text t n = take n (strip t)
       \<and> (\<exists>a b. t = a @ strip t @ b \<and> list_all is_space a \<and> list_all is_space b)
       \<and> (strip t \<noteq> [] \<longrightarrow> \<not> is_space (hd (strip t)) \<and> \<not> is_space (last (strip t)))"
    using sanitize_text_eq [of t n] strip_decomp [of t] strip_ends [of t]
    by blast
  from checks raw alnum trim show ?thesis
    by (intro conjI) (elim conjE, assumption)+
qed

theorem get_qr_string_raises_iff_witness:
  "list_all is_space (beneficiary_name blank_name_payment)
   \<and> fst (get_qr_string blank_name_payment) = Inl (ValueError ''Beneficiary Name is required.'')
   \<and> \<not> list_all is_space (beneficiary_name untidy_conflict_payment)
   \<and> \<not> list_all is_space (remittance_text untidy_conflict_payment)
   \<and> list_ex has_alnum (creditor_reference untidy_conflict_payment)
   \<and> fst (get_qr_string untidy_conflict_payment)
       = Inl (ValueError ''Cannot set both Remittance Text and Creditor Reference.'')
   \<and> list_all is_space (remittance_text bad_reference_payment)
   \<and> \<not> startswith (sanitize_alphanum (creditor_reference bad_reference_payment)) ''RF''
   \<and> fst (get_qr_string bad_reference_payment)
       = Inl (ValueError ''Structured Reference (AT-44) must be an ISO 11649 Reference starting with 'RF'. Use Remittance Text for other formats.'')
   \<and> sanitize_alphanum (creditor_reference lowercase_reference_payment) = ''RF18''
   \<and> (\<exists>s. fst (get_qr_string lowercase_reference_payment) = Inr s)"
proof -
  have a: "fst (get_qr_string blank_name_payment)
             = Inl (ValueError ''Beneficiary Name is required.'')"
    using get_qr_string_raises_iff [of blank_name_payment] raise_example_facts(1)
    by blast
  have b: "fst (get_qr_string untidy_conflict_payment)
       = Inl (ValueError ''Cannot set both Remittance Text and Creditor Reference.'')"
    using get_qr_string_raises_iff [of untidy_conflict_payment] raise_example_facts(2-4)
    by blast
  have c: "fst (get_qr_string bad_reference_payment)
       = Inl (ValueError ''Structured Reference (AT-44) must be an ISO 11649 Reference starting with 'RF'. Use Remittance Text for other formats.'')"
    using get_qr_string_raises_iff [of bad_reference_payment] raise_example_facts(5-7,9)
    by blast
  have d: "\<exists>s. fst (get_qr_string lowercase_reference_payment) = Inr s"
    using get_qr_string_raises_iff [of lowercase_reference_payment] raise_example_facts(10,11,13)
    by blast
  show ?thesis
    using a b c d raise_example_facts(1-4,6,9,12) by blast
qed

text \<open>
  Claim C10. A payload whose amount is strictly negative is serialized as the payload
  with amount zero is: the amount plays no part in the checks, so the call raises under
  the three conditions on name, remittance text and creditor reference only, and when it
  returns, the Amount field (the eighth of the twelve joined fields) is the empty string.
\<close>

theorem get_qr_string_negative_amount:
  assumes "coefficient (amount self) < 0"
  shows "amount_str self = []
       \<and> (\<forall>z. coefficient z = 0 \<longrightarrow>
             fst (get_qr_string self) = fst (get_qr_string (self\<lparr>amount := z\<rparr>)))
       \<and> ((\<exists>e. fst (get_qr_string self) = Inl e) \<longleftrightarrow>
            (sanitize_text (beneficiary_name self) 70 = []
             \<or> (sanitize_text (remittance_text self) 140 \<noteq> []
                 \<and> sanitize_alphanum (creditor_reference self) \<noteq> [])
             \<or> (sanitize_alphanum (creditor_reference self) \<noteq> []
                 \<and> \<not> startswith (sanitize_alphanum (creditor_reference self)) ''RF'')))
       \<and> ((\<forall>e. fst (get_qr_string self) \<noteq> Inl e) \<longrightarrow>
            fst (get_qr_string self)
              = Inr (join_nl
                  [''BCD'', version self, char_set self, ''SCT'',
                   sanitize_alphanum (bic self), sanitize_text (beneficiary_name self) 70,
                   sanitize_alphanum (iban self), [], purpose self,
                   sanitize_alphanum (creditor_reference self),
                   sanitize_text (remittance_text self) 140,
                   sanitize_text (information self) 70]))"
  using assms
  by (simp add: get_qr_string_def Let_def amount_str_def decimal_pos_def)

theorem get_qr_string_negative_amount_witness:
  "coefficient (amount refund_payment) < 0
   \<and> amount_str refund_payment = []
   \<and> fst (get_qr_string refund_payment)
       = fst (get_qr_string (refund_payment\<lparr>amount := Decimal 0 (- 2)\<rparr>))
   \<and> fst (get_qr_string refund_payment)
       = Inr (join_nl [''BCD'', ''002'', ''1'', ''SCT'', [], ''Test Company'',
                ''BE44001981860045'', [], [], [], ''Test Payment'', []])"
proof -
  have neg: "coefficient (amount refund_payment) < 0"
    by (simp add: refund_payment_fields)
  have ok: "\<forall>e. fst (get_qr_string refund_payment) \<noteq> Inl e"
    using get_qr_string_negative_amount [OF neg]
    by (simp add: refund_payment_fields startswith_def)
  have zero: "fst (get_qr_string refund_payment)
       = fst (get_qr_string (refund_payment\<lparr>amount := Decimal 0 (- 2)\<rparr>))"
    using get_qr_string_negative_amount [OF neg] by simp
  show ?thesis
    using neg ok zero get_qr_string_negative_amount [OF neg]
    by (simp add: refund_payment_fields)
qed

lemma test_payment_fields:
  "sanitize_text (beneficiary_name test_payment) 70 = ''Test Company''"
  "sanitize_text (remittance_text test_payment) 140 = ''Test Payment''"
  "sanitize_alphanum (creditor_reference test_payment) = []"
  "sanitize_alphanum (iban test_payment) = ''BE44001981860045''"
  "sanitize_alphanum (bic test_payment) = []"
  "sanitize_text (information test_payment) 70 = []"
  "decimal_pos (amount test_payment)"
  "format_2f (amount test_payment) = ''100.00''"
  "version test_payment = ''002''" "char_set test_payment = ''1''" "purpose test_payment = []"
  "currency test_payment = ''EUR''"
  by code_simp+

text \<open>
  Where none of the fields written without character filtering holds a line separator,
  the string returned does split into the twelve fields, in the fixed order.
\<close>

lemma get_qr_string_single_line_fields:
  fixes self :: EuQrPayment
  defines "final_name \<equiv> sanitize_text (beneficiary_name self) 70"
    and "final_ref \<equiv> sanitize_alphanum (creditor_reference self)"
    and "final_rem \<equiv> sanitize_text (remittance_text self) 140"
    and "final_info \<equiv> sanitize_text (information self) 70"
  assumes name: "final_name \<noteq> []"
    and no_conflict: "\<not> (final_rem \<noteq> [] \<and> final_ref \<noteq> [])"
    and well_formed: "final_ref = [] \<or> startswith final_ref ''RF''"
    and header: "version self = ''002''" "char_set self = ''1''"
    and one_line: "NL \<notin> set final_name" "NL \<notin> set final_rem" "NL \<notin> set final_info"
      "NL \<notin> set (purpose self)" "NL \<notin> set (currency self)"
  shows "map_sum id split_nl (fst (get_qr_string self))
           = Inr [''BCD'', ''002'', ''1'', ''SCT'', sanitize_alphanum (bic self), final_name,
                  sanitize_alphanum (iban self),
                  (if decimal_pos (amount self)
                   then currency self @ format_2f (amount self) else []),
                  purpose self, final_ref, final_rem, final_info]
       \<and> (decimal_pos (amount self) \<longrightarrow>
            (\<exists>ip fp. format_2f (amount self) = ip @ ''.'' @ fp \<and> ip \<noteq> []
               \<and> list_all is_digit ip \<and> length fp = 2 \<and> list_all is_digit fp))"
proof -
  let ?fields = "[''BCD'', version self, char_set self, ''SCT'', sanitize_alphanum (bic self),
                  final_name, sanitize_alphanum (iban self), amount_str self, purpose self,
                  final_ref, final_rem, final_info]"
  have res: "fst (get_qr_string self) = Inr (join_nl ?fields)"
    using name no_conflict well_formed
    unfolding final_name_def final_ref_def final_rem_def final_info_def
    by (auto simp: get_qr_string_def Let_def)
  have amt: "NL \<notin> set (amount_str self)"
    using one_line(5) format_2f_no_NL [of "amount self"]
    by (simp add: amount_str_def decimal_pos_def)
  have "\<forall>x\<in>set ?fields. NL \<notin> set x"
    using one_line amt header sanitize_alphanum_no_NL
    unfolding final_ref_def
    by (simp add: NL_def)
  then have "split_nl (join_nl ?fields) = ?fields"
    by (intro split_nl_join_nl) simp_all
  with res header have "map_sum id split_nl (fst (get_qr_string self))
           = Inr [''BCD'', ''002'', ''1'', ''SCT'', sanitize_alphanum (bic self), final_name,
                  sanitize_alphanum (iban self),
                  (if decimal_pos (amount self)
                   then currency self @ format_2f (amount self) else []),
                  purpose self, final_ref, final_rem, final_info]"
    by (simp add: amount_str_def)
  moreover have "decimal_pos (amount self) \<longrightarrow>
            (\<exists>ip fp. format_2f (amount self) = ip @ ''.'' @ fp \<and> ip \<noteq> []
               \<and> list_all is_digit ip \<and> length fp = 2 \<and> list_all is_digit fp)"
    using format_2f_shape [of "amount self"] by (simp add: decimal_pos_def)
  ultimately show ?thesis by simp
qed

lemma get_qr_string_test_payment_fields:
  "sanitize_text (beneficiary_name test_payment) 70 \<noteq> []
   \<and> decimal_pos (amount test_payment)
   \<and> map_sum id split_nl (fst (get_qr_string test_payment))
       = Inr [''BCD'', ''002'', ''1'', ''SCT'', [], ''Test Company'', ''BE44001981860045'',
              ''EUR100.00'', [], [], ''Test Payment'', []]"
  using get_qr_string_single_line_fields [of test_payment]
  by (simp add: test_payment_fields NL_def startswith_def)

text \<open>
  Claim C1. The claim says that every payload with a name, without conflict and without
  malformed reference is serialized to a string of exactly 12 fields. The code breaks it
  on the payload of \<open>test_payload_structure\<close> with a remittance text of two lines, as the
  form's text area gives: every check passes, and the string returned splits into 13
  fields, the second line of the remittance text standing where the information text
  belongs.
\<close>

theorem get_qr_string_multiline_payment:
  "sanitize_text (beneficiary_name multiline_payment) 70 \<noteq> []
   \<and> \<not> (sanitize_text (remittance_text multiline_payment) 140 \<noteq> []
        \<and> sanitize_alphanum (creditor_reference multiline_payment) \<noteq> [])
   \<and> sanitize_alphanum (creditor_reference multiline_payment) = []
   \<and> map_sum id split_nl (fst (get_qr_string multiline_payment))
       = Inr [''BCD'', ''002'', ''1'', ''SCT'', [], ''Test Company'', ''BE44001981860045'',
              ''EUR100.00'', [], [], ''Invoice 12'', ''Jan 2024'', []]
   \<and> map_sum id (\<lambda>s. length (split_nl s)) (fst (get_qr_string multiline_payment)) = Inr 13"
  by code_simp

section \<open>Properties of the IBAN check\<close>

lemma validate_iban_digits_value:
  assumes "list_all is_upper_alnum (iban self)"
  shows "validate_iban self
           = Inr (iban self \<noteq> [] \<and> re_match_iban (iban self)
                  \<and> digits_value 0 (concat (map iban_char_digits
                        (drop 4 (iban self) @ take 4 (iban self)))) mod 97 = 1)"
proof (cases "iban self \<noteq> [] \<and> re_match_iban (iban self)")
  case False
  then show ?thesis by (auto simp: validate_iban_def)
next
  case True
  let ?r = "drop 4 (iban self) @ take 4 (iban self)"
  have "list_all is_upper_alnum ?r"
    using assms by (auto simp: list_all_iff dest: in_set_dropD in_set_takeD)
  moreover have "?r \<noteq> []" using True by simp
  ultimately have "py_int (concat (map iban_char_digits ?r))
                     = Inr (digits_value 0 (concat (map iban_char_digits ?r)))"
    using numeric_iban_digits [of ?r] by (intro py_int_digits) simp_all
  with True show ?thesis by (simp add: validate_iban_def Let_def)
qed

lemma known_payment_facts:
  "list_all is_upper_alnum (iban known_payment)"
  "iban known_payment \<noteq> []"
  "iban_structure (iban known_payment)"
  "re_match_iban (iban known_payment)"
  "iban_digit_string (iban known_payment) = known_numeric_iban"
  "concat (map iban_char_digits (drop 4 (iban known_payment) @ take 4 (iban known_payment)))
     = known_numeric_iban"
  "concat (map iban_char_digits (drop 4 (iban known_payment)))
     @ concat (map iban_char_digits (take 4 (iban known_payment))) = known_numeric_iban"
  "digits_value 0 known_numeric_iban mod 97 = 1"
  "mod97Check known_numeric_iban = 1"
  "list_all is_digit known_numeric_iban"
  "known_numeric_iban \<noteq> []"
  by code_simp+

text \<open>
  Claim C3. On a sanitized IBAN (uppercase letters and digits only) \<open>validate_iban\<close>
  never raises; it returns false when the string is empty or does not have the
  structure of two uppercase letters, two digits and 1 to 30 uppercase letters or digits,
  and otherwise returns true exactly when the digit string obtained by moving the first
  four characters to the end and replacing each letter \<open>A\<close>..\<open>Z\<close> by 10..35 has remainder
  1 modulo 97. That digit string is never empty and holds digits only. The check accepts
  \<open>BE44001981860045\<close> and rejects \<open>BE44001981860046\<close>.
\<close>

theorem validate_iban_sanitized:
  assumes "list_all is_upper_alnum (iban self)"
  shows "validate_iban self
           = Inr (iban self \<noteq> [] \<and> iban_structure (iban self)
                  \<and> digits_value 0 (iban_digit_string (iban self)) mod 97 = 1)
       \<and> (iban self = [] \<or> \<not> iban_structure (iban self) \<longrightarrow> validate_iban self = Inr False)
       \<and> (iban_structure (iban self) \<longrightarrow>
            iban_digit_string (iban self) \<noteq> []
            \<and> list_all is_digit (iban_digit_string (iban self)))
       \<and> validate_iban (EuQrPayment_init ''BE44001981860045'') = Inr True
       \<and> validate_iban (EuQrPayment_init ''BE44001981860046'') = Inr False"
proof -
  have main: "validate_iban self
           = Inr (iban self \<noteq> [] \<and> iban_structure (iban self)
                  \<and> digits_value 0 (iban_digit_string (iban self)) mod 97 = 1)"
    by (simp only: validate_iban_digits_value [OF assms] re_match_iban_structure [OF assms]
          numeric_iban_eq [OF assms])
  have "iban_digit_string (iban self) \<noteq> [] \<and> list_all is_digit (iban_digit_string (iban self))"
    if "iban_structure (iban self)"
  proof -
    let ?r = "drop 4 (iban self) @ take 4 (iban self)"
    have "list_all is_upper_alnum ?r"
      using assms by (auto simp: list_all_iff dest: in_set_dropD in_set_takeD)
    moreover have "?r \<noteq> []" using that by (auto simp: iban_structure_def)
    ultimately have "concat (map iban_char_digits ?r) \<noteq> []
        \<and> list_all is_digit (concat (map iban_char_digits ?r))"
      by (rule numeric_iban_digits)
    then show ?thesis
      unfolding numeric_iban_eq [OF assms] .
  qed
  moreover have "validate_iban (EuQrPayment_init ''BE44001981860045'') = Inr True"
    by code_simp
  moreover have "validate_iban (EuQrPayment_init ''BE44001981860046'') = Inr False"
    by code_simp
  ultimately show ?thesis using main by auto
qed

theorem validate_iban_sanitized_witness:
  "list_all is_upper_alnum (iban known_payment)
   \<and> iban_structure (iban known_payment)
   \<and> iban_digit_string (iban known_payment) = known_numeric_iban
   \<and> list_all is_digit known_numeric_iban
   \<and> validate_iban known_payment = Inr True"
  using validate_iban_sanitized [OF known_payment_facts(1)]
  by (simp add: known_payment_facts)

text \<open>
  Claim C8. On every string of digits the digit-by-digit reduction
  \<open>acc = (acc*10 + digit) % 97\<close> of the specification gives the remainder that the code
  computes as \<open>int(numeric_iban) % 97\<close> (\<open>int\<close> needs at least one digit, and the digit
  string of \<open>validate_iban\<close> always has one); so \<open>validate_iban\<close> on a sanitized IBAN
  returns what the check written with \<open>mod97Check\<close> returns.
\<close>

theorem mod97Check_refines_int_mod:
  "(s \<noteq> [] \<and> list_all is_digit s \<longrightarrow>
      map_sum id (\<lambda>n. n mod 97) (py_int s) = Inr (mod97Check s))
   \<and> (list_all is_upper_alnum (iban self) \<longrightarrow>
        validate_iban self
          = Inr (iban self \<noteq> [] \<and> re_match_iban (iban self)
                 \<and> mod97Check (concat (map iban_char_digits
                       (drop 4 (iban self) @ take 4 (iban self)))) = 1))"
  by (simp add: py_int_digits mod97Check_digits_value validate_iban_digits_value)

theorem mod97Check_refines_int_mod_witness:
  "known_numeric_iban \<noteq> [] \<and> list_all is_digit known_numeric_iban
   \<and> map_sum id (\<lambda>n. n mod 97) (py_int known_numeric_iban) = Inr 1
   \<and> list_all is_upper_alnum (iban known_payment)
   \<and> validate_iban known_payment = Inr True"
  using mod97Check_refines_int_mod [of known_numeric_iban known_payment]
  by (simp add: known_payment_facts)

section \<open>Properties of the OGM generator\<close>

lemma zfill_digits:
  "list_all is_digit d \<Longrightarrow> zfill n d = replicate (n - length d) (CHR ''0'') @ d"
  by (cases d) (auto simp: zfill_def dest: is_digit_not_sign)

lemma is_digit_zero: "is_digit (CHR ''0'')"
  by (simp add: is_digit_def ord_def)

lemma not_digit_marks: "\<not> is_digit (CHR ''+'')" "\<not> is_digit (CHR ''/'')"
  by (simp_all add: is_digit_def ord_def)

lemma ogm_base_digits: "length (ogm_base b) = 10 \<and> list_all is_digit (ogm_base b)"
  by (auto simp: ogm_base_def Let_def list_all_iff is_digit_zero dest: in_set_takeD)

lemma ogm_base_zfill:
  "(if 10 < length (filter is_digit b) then take 10 (filter is_digit b)
    else zfill 10 (filter is_digit b)) = ogm_base b"
  by (simp add: ogm_base_def Let_def zfill_digits list_all_iff)

lemma ogm_check_range: "1 \<le> ogm_check n \<and> ogm_check n \<le> 97"
proof -
  have "0 \<le> n mod 97" "n mod 97 < 97" by simp_all
  then show ?thesis by (auto simp: ogm_check_def)
qed

lemma format_02d_check:
  assumes "1 \<le> m" "m \<le> 97"
  shows "format_02d m = [digit_char (m div 10), digit_char (m mod 10)]"
  using assms zfill2_below_100 [of m] by (simp add: format_02d_def str_int_def)

lemma list_of_length_10:
  assumes "length xs = 10"
  obtains a0 a1 a2 a3 a4 a5 a6 a7 a8 a9 where "xs = [a0, a1, a2, a3, a4, a5, a6, a7, a8, a9]"
proof -
  from assms have "length xs = Suc (Suc (Suc (Suc (Suc (Suc (Suc (Suc (Suc (Suc 0)))))))))"
    by simp
  then show ?thesis
    using that by (auto simp: length_Suc_conv)
qed

lemma ogm_layout:
  assumes "length B = 10" "list_all is_digit B" "is_digit c0" "is_digit c1"
  defines "full \<equiv> B @ [c0, c1]"
  defines "s \<equiv> ''+++'' @ take 3 full @ ''/'' @ take 4 (drop 3 full) @ ''/''
                 @ take 5 (drop 7 full) @ ''+++''"
  shows "ogm_format s \<and> ogm_digits s = B @ [c0, c1]"
proof -
  obtain a0 a1 a2 a3 a4 a5 a6 a7 a8 a9 where B: "B = [a0, a1, a2, a3, a4, a5, a6, a7, a8, a9]"
    using assms(1) by (rule list_of_length_10)
  have s: "s = [CHR ''+'', CHR ''+'', CHR ''+'', a0, a1, a2, CHR ''/'', a3, a4, a5, a6,
                CHR ''/'', a7, a8, a9, c0, c1, CHR ''+'', CHR ''+'', CHR ''+'']"
    by (simp add: s_def full_def B)
  have d: "is_digit a0" "is_digit a1" "is_digit a2" "is_digit a3" "is_digit a4" "is_digit a5"
    "is_digit a6" "is_digit a7" "is_digit a8" "is_digit a9"
    using assms(2) by (simp_all add: B)
  have "ogm_format s"
    unfolding s by (simp add: ogm_format_def d assms(3,4))
  moreover have "ogm_digits s = B @ [c0, c1]"
    unfolding s by (simp add: ogm_digits_def d assms(3,4) not_digit_marks B)
  ultimately show ?thesis by simp
qed

lemma generate_belgian_ogm_supplied:
  assumes "b \<noteq> []"
  shows "\<exists>s. generate_belgian_ogm (Some b) rng = Inr s \<and> ogm_format s
             \<and> length (ogm_digits s) = 12
             \<and> take 10 (ogm_digits s) = ogm_base b
             \<and> length (drop 10 (ogm_digits s)) = 2
             \<and> digits_value 0 (drop 10 (ogm_digits s)) = ogm_check (digits_value 0 (ogm_base b))"
proof -
  let ?B = "ogm_base b"
  let ?m = "ogm_check (digits_value 0 ?B)"
  let ?c0 = "digit_char (?m div 10)"
  let ?c1 = "digit_char (?m mod 10)"
  let ?full = "?B @ [?c0, ?c1]"
  let ?s = "''+++'' @ take 3 ?full @ ''/'' @ take 4 (drop 3 ?full) @ ''/''
              @ take 5 (drop 7 ?full) @ ''+++''"
  have B: "length ?B = 10" "list_all is_digit ?B"
    using ogm_base_digits [of b] by simp_all
  then have int: "py_int ?B = Inr (digits_value 0 ?B)"
    by (intro py_int_digits) auto
  have m: "1 \<le> ?m" "?m \<le> 97"
    using ogm_check_range [of "digits_value 0 ?B"] by simp_all
  then have q: "0 \<le> ?m div 10" "?m div 10 < 10" by simp_all
  have c: "is_digit ?c0" "is_digit ?c1"
    using q by (simp_all add: is_digit_digit_char)
  have fmt: "format_02d ?m = [?c0, ?c1]"
    using m by (rule format_02d_check)
  have res: "generate_belgian_ogm (Some b) rng = Inr ?s"
    using assms
    by (simp only: generate_belgian_ogm_def option.case if_False Let_def ogm_base_zfill int
          sum.case ogm_check_def [symmetric] fmt)
  have lay: "ogm_format ?s \<and> ogm_digits ?s = ?B @ [?c0, ?c1]"
    using B c by (rule ogm_layout)
  have val: "digits_value 0 [?c0, ?c1] = ?m"
    using q by (simp add: digit_val_digit_char)
  show ?thesis
    using res lay B val by simp
qed

text \<open>
  Claim C4. For every supplied base (every string that is not empty)
  \<open>generate_belgian_ogm\<close> returns, without raising, a string of the form
  \<open>+++DDD/DDDD/DDDDD+++\<close>. Its twelve digits are the ten digits of the base (the digit
  characters of the input, cut to the first ten or padded on the left with zeros) followed
  by two check digits, whose value is the base modulo 97 with 0 replaced by 97. For the
  base \<open>5337367152\<close> the result is \<open>+++533/7367/15261+++\<close>.
\<close>

theorem generate_belgian_ogm_supplied_base:
  assumes "b \<noteq> []"
  shows "(\<exists>s. generate_belgian_ogm (Some b) rng = Inr s \<and> ogm_format s
             \<and> length (ogm_digits s) = 12
             \<and> take 10 (ogm_digits s) = ogm_base b
             \<and> length (drop 10 (ogm_digits s)) = 2
             \<and> digits_value 0 (drop 10 (ogm_digits s)) = ogm_check (digits_value 0 (ogm_base b)))
       \<and> length (ogm_base b) = 10 \<and> list_all is_digit (ogm_base b)
       \<and> generate_belgian_ogm (Some ''5337367152'') rng = Inr ''+++533/7367/15261+++''"
proof -
  have "generate_belgian_ogm (Some ''5337367152'') rng = Inr ''+++533/7367/15261+++''"
    by (simp add: generate_belgian_ogm_def) code_simp
  then show ?thesis
    using generate_belgian_ogm_supplied [OF assms, of rng] ogm_base_digits [of b] by simp
qed

theorem generate_belgian_ogm_supplied_base_witness:
  "''5337367152'' \<noteq> []
   \<and> generate_belgian_ogm (Some ''5337367152'') 0 = Inr ''+++533/7367/15261+++''
   \<and> ogm_format ''+++533/7367/15261+++''
   \<and> take 10 (ogm_digits ''+++533/7367/15261+++'') = ogm_base ''5337367152''
   \<and> digits_value 0 (drop 10 (ogm_digits ''+++533/7367/15261+++''))
        = ogm_check (digits_value 0 (ogm_base ''5337367152''))"
  using generate_belgian_ogm_supplied_base [of "''5337367152''" 0]
  by auto

lemma digits_value_snoc: "digits_value a (xs @ [c]) = digits_value a xs * 10 + digit_val c"
  by (induction xs arbitrary: a) simp_all

lemma digits_value_str_nat: "0 \<le> n \<Longrightarrow> digits_value 0 (str_nat n) = n"
proof (induction n rule: str_nat.induct)
  case (1 n)
  show ?case
  proof (cases "n < 10")
    case True
    with "1.prems" show ?thesis
      by (simp add: str_nat_small digit_val_digit_char)
  next
    case False
    then have "digits_value 0 (str_nat (n div 10)) = n div 10"
      using "1.IH" by simp
    moreover have "digit_val (digit_char (n mod 10)) = n mod 10"
      by (simp add: digit_val_digit_char)
    ultimately show ?thesis
      using False by (simp add: str_nat.simps [of n] digits_value_snoc)
  qed
qed

lemma length_str_nat: "10 ^ k \<le> n \<Longrightarrow> n < 10 ^ Suc k \<Longrightarrow> length (str_nat n) = Suc k"
proof (induction k arbitrary: n)
  case 0
  then show ?case by (simp add: str_nat_small)
next
  case (Suc k)
  have "(10::int) \<le> 10 ^ Suc k" by simp
  with Suc.prems have ten: "10 \<le> n" by linarith
  have "10 ^ k \<le> n div 10" using Suc.prems(1) by simp
  moreover have "n div 10 < 10 ^ Suc k" using Suc.prems(2) by simp
  ultimately have "length (str_nat (n div 10)) = Suc k" by (rule Suc.IH)
  with ten show ?case by (simp add: str_nat.simps [of n])
qed

lemma randint_range: "a \<le> b \<Longrightarrow> a \<le> randint a b rng \<and> randint a b rng \<le> b"
proof -
  assume "a \<le> b"
  then have "0 < b - a + 1" by simp
  then have "0 \<le> rng mod (b - a + 1)" "rng mod (b - a + 1) < b - a + 1"
    by (rule pos_mod_sign, rule pos_mod_bound)
  then show ?thesis unfolding randint_def by linarith
qed

lemma randint_offset: "a \<le> n \<Longrightarrow> n \<le> b \<Longrightarrow> randint a b (n - a) = n"
  by (simp add: randint_def)

lemma str_int_ten_digits:
  assumes "1000000000 \<le> n" "n \<le> 9999999999"
  shows "str_int n \<noteq> []" "ogm_base (str_int n) = str_int n"
    "digits_value 0 (str_int n) = n"
proof -
  have n: "0 \<le> n" using assms by simp
  then have s: "str_int n = str_nat n" by (simp add: str_int_def)
  have d: "str_nat n \<noteq> []" "list_all is_digit (str_nat n)"
    using str_nat_digits [OF n] by simp_all
  have "(10::int) ^ 9 \<le> n" "n < 10 ^ Suc 9" using assms by simp_all
  then have l: "length (str_nat n) = Suc 9" by (rule length_str_nat)
  have "filter is_digit (str_nat n) = str_nat n"
    using d(2) by (simp add: list_all_iff)
  then have "ogm_base (str_nat n) = str_nat n"
    using l by (simp add: ogm_base_def)
  with s d n show "str_int n \<noteq> []" "ogm_base (str_int n) = str_int n"
    "digits_value 0 (str_int n) = n"
    by (simp_all add: digits_value_str_nat)
qed

lemma generate_belgian_ogm_none:
  "generate_belgian_ogm None rng
     = generate_belgian_ogm (Some (str_int (randint 1000000000 9999999999 rng))) rng"
  "generate_belgian_ogm (Some []) rng = generate_belgian_ogm None rng"
proof -
  have "1000000000 \<le> randint 1000000000 9999999999 rng
        \<and> randint 1000000000 9999999999 rng \<le> 9999999999"
    by (rule randint_range) simp
  then have "str_int (randint 1000000000 9999999999 rng) \<noteq> []"
    using str_int_ten_digits(1) by blast
  then show "generate_belgian_ogm None rng
     = generate_belgian_ogm (Some (str_int (randint 1000000000 9999999999 rng))) rng"
    by (simp add: generate_belgian_ogm_def)
  show "generate_belgian_ogm (Some []) rng = generate_belgian_ogm None rng"
    by (simp add: generate_belgian_ogm_def)
qed

lemma generate_belgian_ogm_random:
  "\<exists>s. generate_belgian_ogm None rng = Inr s \<and> ogm_format s
       \<and> take 10 (ogm_digits s) = str_int (randint 1000000000 9999999999 rng)"
proof -
  let ?n = "randint 1000000000 9999999999 rng"
  have r: "1000000000 \<le> ?n \<and> ?n \<le> 9999999999"
    by (rule randint_range) simp
  then have ne: "str_int ?n \<noteq> []" and base: "ogm_base (str_int ?n) = str_int ?n"
    using str_int_ten_digits by blast+
  show ?thesis
    using generate_belgian_ogm_supplied [OF ne, of rng] base
    by (auto simp: generate_belgian_ogm_none(1))
qed

lemma random_base_value:
  assumes "generate_belgian_ogm None rng = Inr s"
  shows "digits_value 0 (take 10 (ogm_digits s)) = randint 1000000000 9999999999 rng"
proof -
  let ?n = "randint 1000000000 9999999999 rng"
  have r: "1000000000 \<le> ?n \<and> ?n \<le> 9999999999"
    by (rule randint_range) simp
  have "take 10 (ogm_digits s) = str_int ?n"
    using generate_belgian_ogm_random [of rng] assms by auto
  then show ?thesis
    using r str_int_ten_digits(3) [of ?n] by simp
qed

text \<open>
  Claim C7, as amended. Called with no base (or with the empty string),
  \<open>generate_belgian_ogm\<close> draws the base with \<open>random.randint(1000000000, 9999999999)\<close>:
  the base always lies between \<open>10^9\<close> and \<open>10^10 - 1\<close>, every value of that range is the
  base of some draw, and different draws within one period of the range give different
  bases, so no value of the range is favoured.
\<close>

theorem generate_belgian_ogm_random_base:
  "(\<exists>s. generate_belgian_ogm None rng = Inr s \<and> ogm_format s
        \<and> 1000000000 \<le> digits_value 0 (take 10 (ogm_digits s))
        \<and> digits_value 0 (take 10 (ogm_digits s)) \<le> 9999999999)
   \<and> (1000000000 \<le> n \<and> n \<le> 9999999999 \<longrightarrow>
        (\<exists>s. generate_belgian_ogm None (n - 1000000000) = Inr s
             \<and> take 10 (ogm_digits s) = str_int n))
   \<and> (0 \<le> r1 \<and> r1 < 9000000000 \<and> 0 \<le> r2 \<and> r2 < 9000000000
        \<and> generate_belgian_ogm None r1 = generate_belgian_ogm None r2 \<longrightarrow> r1 = r2)
   \<and> generate_belgian_ogm (Some []) rng = generate_belgian_ogm None rng"
proof -
  obtain s where s: "generate_belgian_ogm None rng = Inr s" "ogm_format s"
    using generate_belgian_ogm_random [of rng] by blast
  have "1000000000 \<le> randint 1000000000 9999999999 rng
        \<and> randint 1000000000 9999999999 rng \<le> 9999999999"
    by (rule randint_range) simp
  then have a: "\<exists>s. generate_belgian_ogm None rng = Inr s \<and> ogm_format s
        \<and> 1000000000 \<le> digits_value 0 (take 10 (ogm_digits s))
        \<and> digits_value 0 (take 10 (ogm_digits s)) \<le> 9999999999"
    using s random_base_value [OF s(1)] by auto
  have b: "\<exists>s. generate_belgian_ogm None (n - 1000000000) = Inr s
             \<and> take 10 (ogm_digits s) = str_int n"
    if "1000000000 \<le> n \<and> n \<le> 9999999999"
    using generate_belgian_ogm_random [of "n - 1000000000"] that
    by (auto simp: randint_offset)
  have c: "r1 = r2"
    if h: "0 \<le> r1 \<and> r1 < 9000000000 \<and> 0 \<le> r2 \<and> r2 < 9000000000
        \<and> generate_belgian_ogm None r1 = generate_belgian_ogm None r2"
  proof -
    obtain s1 where s1: "generate_belgian_ogm None r1 = Inr s1"
      using generate_belgian_ogm_random [of r1] by blast
    then have s2: "generate_belgian_ogm None r2 = Inr s1" using h by simp
    have "randint 1000000000 9999999999 r1 = randint 1000000000 9999999999 r2"
      using random_base_value [OF s1] random_base_value [OF s2] by simp
    then show ?thesis
      using h by (simp add: randint_def)
  qed
  show ?thesis
    using a b c generate_belgian_ogm_none(2) [of rng] by blast
qed

theorem generate_belgian_ogm_random_base_witness:
  "(1000000000::int) \<le> 5337367152 \<and> (5337367152::int) \<le> 9999999999
   \<and> (\<exists>s. generate_belgian_ogm None 4337367152 = Inr s
          \<and> take 10 (ogm_digits s) = ''5337367152'')
   \<and> ((0::int) \<le> 7 \<and> (7::int) < 9000000000
        \<and> generate_belgian_ogm None 7 = generate_belgian_ogm None 7)"
proof -
  have "str_int 5337367152 = ''5337367152''" by code_simp
  then show ?thesis
    using generate_belgian_ogm_random_base [of 0 5337367152 7 7] by simp
qed

text \<open>
  Claim C7 as stated fails: the base \<open>0000000000\<close>, a value below \<open>10^9\<close>, is the base of
  no draw.
\<close>

theorem generate_belgian_ogm_zero_base_counterexample:
  "\<not> (\<exists>rng. map_sum id (\<lambda>s. take 10 (ogm_digits s)) (generate_belgian_ogm None rng)
               = Inr ''0000000000'')"
proof
  assume "\<exists>rng. map_sum id (\<lambda>s. take 10 (ogm_digits s)) (generate_belgian_ogm None rng)
               = Inr ''0000000000''"
  then obtain rng where h: "map_sum id (\<lambda>s. take 10 (ogm_digits s))
      (generate_belgian_ogm None rng) = Inr ''0000000000''" by blast
  obtain s where s: "generate_belgian_ogm None rng = Inr s"
    using generate_belgian_ogm_random [of rng] by blast
  with h have "take 10 (ogm_digits s) = ''0000000000''" by simp
  then have "digits_value 0 ''0000000000'' = randint 1000000000 9999999999 rng"
    using random_base_value [OF s] by simp
  moreover have "digits_value 0 ''0000000000'' = 0" by code_simp
  moreover have "1000000000 \<le> randint 1000000000 9999999999 rng"
    using randint_range [of 1000000000 9999999999 rng] by simp
  ultimately show False by simp
qed

section \<open>Properties of the validator\<close>

lemma split_nl_nonempty: "split_nl q \<noteq> []"
  by (induction q) (auto split: list.splits)

lemma join_nl_Cons_Cons: "join_nl ((c # l) # ls) = c # join_nl (l # ls)"
  by (cases ls) simp_all

lemma join_nl_split_nl: "join_nl (split_nl q) = q"
proof (induction q)
  case Nil
  show ?case by simp
next
  case (Cons c cs)
  obtain l ls where s: "split_nl cs = l # ls"
    using split_nl_nonempty [of cs] by (cases "split_nl cs") auto
  with Cons.IH have "join_nl (l # ls) = cs" by simp
  then show ?case
    by (simp add: s join_nl_Cons_Cons)
qed

lemma split_nl_lines: "\<forall>l\<in>set (split_nl q). NL \<notin> set l"
  by (induction q) (auto split: list.splits)

lemma drop_trailing_spec:
  "\<exists>k. ls = drop_trailing ls @ replicate k []
       \<and> (length (drop_trailing ls) \<le> 12 \<or> last (drop_trailing ls) \<noteq> [])
       \<and> (0 < k \<longrightarrow> 12 \<le> length (drop_trailing ls))"
proof (induction ls rule: drop_trailing.induct)
  case (1 ls)
  show ?case
  proof (cases "12 < length ls \<and> last ls = []")
    case False
    then have "drop_trailing ls = ls" by (subst drop_trailing.simps) auto
    with False have "ls = drop_trailing ls @ replicate 0 []
       \<and> (length (drop_trailing ls) \<le> 12 \<or> last (drop_trailing ls) \<noteq> [])
       \<and> (0 < (0::nat) \<longrightarrow> 12 \<le> length (drop_trailing ls))"
      by auto
    then show ?thesis by blast
  next
    case True
    then have eq: "drop_trailing ls = drop_trailing (butlast ls)"
      by (subst drop_trailing.simps) auto
    from True have ne: "ls \<noteq> []" by auto
    with True have ls: "ls = butlast ls @ [[]]"
      by (metis append_butlast_last_id)
    obtain k where k: "butlast ls = drop_trailing (butlast ls) @ replicate k []"
      "length (drop_trailing (butlast ls)) \<le> 12 \<or> last (drop_trailing (butlast ls)) \<noteq> []"
      "0 < k \<longrightarrow> 12 \<le> length (drop_trailing (butlast ls))"
      using "1.IH" [OF True] by blast
    have "12 \<le> length (butlast ls)" using True by (simp add: length_butlast) linarith
    then have len: "12 \<le> length (drop_trailing (butlast ls))"
      using k(1,3) by (cases k) auto
    have "ls = drop_trailing (butlast ls) @ replicate (Suc k) []"
      using ls k(1) by (metis append_assoc replicate_append_same replicate_Suc)
    then have A: "ls = drop_trailing ls @ replicate (Suc k) []"
      unfolding eq .
    have B: "length (drop_trailing ls) \<le> 12 \<or> last (drop_trailing ls) \<noteq> []"
      unfolding eq by (rule k(2))
    have C: "0 < Suc k \<longrightarrow> 12 \<le> length (drop_trailing ls)"
      unfolding eq using len by simp
    from A B C show ?thesis by blast
  qed
qed

lemma drop_trailing_short: "length ls \<le> 12 \<Longrightarrow> drop_trailing ls = ls"
  by (subst drop_trailing.simps) auto

lemma validate_qr_string_cases:
  "length (prepass_lines q) \<noteq> 12 \<Longrightarrow>
     validate_qr_string q
       = (False, [Start_Validation, Critical_Fail (length (prepass_lines q)), Lines_Found (prepass_lines q)])"
  "length (prepass_lines q) = 12 \<Longrightarrow>
     validate_qr_string q
       = field_phase (prepass_lines q)
           ([Start_Validation]
            @ (if length (split_nl q) = 11 then [Warning_11_Lines, Warning_11_Lines_Hint] else [])
            @ [Line_Count_Ok])"
  by (auto simp: validate_qr_string_def prepass_lines_def Let_def drop_trailing_short)

lemma prepass_lines_eleven: "length (split_nl q) = 11 \<Longrightarrow> prepass_lines q = split_nl q @ [[]]"
  by (simp add: prepass_lines_def drop_trailing_short)

lemma prepass_lines_other:
  "length (split_nl q) \<noteq> 11 \<Longrightarrow> prepass_lines q = drop_trailing (split_nl q)"
  by (simp add: prepass_lines_def)

text \<open>
  Claim C5. \<open>validate_qr_string\<close> first splits the input on the line separator, keeping
  empty lines (joining the pieces gives the input back, and no piece holds a separator).
  If exactly 11 lines result, it appends one empty line and prints the warning, and the
  field checks run on the 12 lines. Otherwise it drops trailing empty lines while more than
  12 lines remain: only empty lines at the end are removed, never below 12, and the loop
  stops at 12 lines or at a last line that is not empty. If the count is then not 12 it
  returns false, and the only lines printed after the start line report the count and the
  lines: no field is checked.
\<close>

theorem validate_qr_string_prepass:
  fixes q :: string
  defines "lines0 \<equiv> split_nl q"
  shows "join_nl lines0 = q \<and> (\<forall>l\<in>set lines0. NL \<notin> set l)
       \<and> (length lines0 = 11 \<longrightarrow>
            validate_qr_string q
              = field_phase (lines0 @ [[]])
                  [Start_Validation, Warning_11_Lines, Warning_11_Lines_Hint, Line_Count_Ok])
       \<and> (\<exists>k. lines0 = drop_trailing lines0 @ replicate k []
              \<and> (length (drop_trailing lines0) \<le> 12 \<or> last (drop_trailing lines0) \<noteq> [])
              \<and> (0 < k \<longrightarrow> 12 \<le> length (drop_trailing lines0)))
       \<and> (length lines0 \<noteq> 11 \<and> length (drop_trailing lines0) \<noteq> 12 \<longrightarrow>
            validate_qr_string q
              = (False, [Start_Validation,
                         Critical_Fail (length (drop_trailing lines0)),
                         Lines_Found (drop_trailing lines0)]))
       \<and> (length lines0 \<noteq> 11 \<and> length (drop_trailing lines0) = 12 \<longrightarrow>
            validate_qr_string q
              = field_phase (drop_trailing lines0) [Start_Validation, Line_Count_Ok])"
proof -
  have a: "validate_qr_string q
              = field_phase (lines0 @ [[]])
                  [Start_Validation, Warning_11_Lines, Warning_11_Lines_Hint, Line_Count_Ok]"
    if "length lines0 = 11"
    using that validate_qr_string_cases(2) [of q]
    by (simp add: lines0_def prepass_lines_eleven)
  have b: "validate_qr_string q
              = (False, [Start_Validation,
                         Critical_Fail (length (drop_trailing lines0)),
                         Lines_Found (drop_trailing lines0)])"
    if "length lines0 \<noteq> 11 \<and> length (drop_trailing lines0) \<noteq> 12"
    using that validate_qr_string_cases(1) [of q]
    by (simp add: lines0_def prepass_lines_other)
  have c: "validate_qr_string q
              = field_phase (drop_trailing lines0) [Start_Validation, Line_Count_Ok]"
    if "length lines0 \<noteq> 11 \<and> length (drop_trailing lines0) = 12"
    using that validate_qr_string_cases(2) [of q]
    by (simp add: lines0_def prepass_lines_other)
  show ?thesis
    using a b c drop_trailing_spec [of lines0] join_nl_split_nl [of q] split_nl_lines [of q]
    unfolding lines0_def by blast
qed

lemma prepass_examples:
  "length (split_nl sample_payload) = 11"
  "length (split_nl short_payload) \<noteq> 11"
  "length (drop_trailing (split_nl short_payload)) \<noteq> 12"
  "length (drop_trailing (split_nl short_payload)) = 1"
  "drop_trailing (split_nl short_payload) = [''abc'']"
  "length (split_nl padded_payload) \<noteq> 11"
  "length (split_nl padded_payload) = 13"
  "length (drop_trailing (split_nl padded_payload)) = 12"
  "fst (field_phase (split_nl sample_payload @ [[]])
     [Start_Validation, Warning_11_Lines, Warning_11_Lines_Hint, Line_Count_Ok])"
  "fst (field_phase (drop_trailing (split_nl padded_payload)) [Start_Validation, Line_Count_Ok])"
  by code_simp+

theorem validate_qr_string_prepass_witness:
  "length (split_nl sample_payload) = 11 \<and> fst (validate_qr_string sample_payload)
   \<and> length (split_nl short_payload) \<noteq> 11
   \<and> length (drop_trailing (split_nl short_payload)) \<noteq> 12
   \<and> validate_qr_string short_payload = (False, [Start_Validation, Critical_Fail 1, Lines_Found [''abc'']])
   \<and> length (split_nl padded_payload) = 13
   \<and> length (drop_trailing (split_nl padded_payload)) = 12
   \<and> fst (validate_qr_string padded_payload)"
proof -
  have a: "fst (validate_qr_string sample_payload)"
    using validate_qr_string_prepass [of sample_payload]
    by (simp add: prepass_examples)
  have b: "validate_qr_string short_payload
             = (False, [Start_Validation, Critical_Fail 1, Lines_Found [''abc'']])"
    using validate_qr_string_prepass [of short_payload]
    by (simp add: prepass_examples)
  have c: "fst (validate_qr_string padded_payload)"
    using validate_qr_string_prepass [of padded_payload]
    by (simp add: prepass_examples)
  show ?thesis
    using a b c by (simp add: prepass_examples)
qed















end
